theory Spec2Isabelle
  imports Main "HOL-Library.Word" "HOL-Library.Monad_Syntax"
begin

unbundle bit_operations_syntax

section \<open>Bytes, buffers and the protocol constants\<close>

text \<open>
  The library targets the 32-bit boards of ArduinoBLE (the header includes \<open>cstdint\<close>),
  so \<open>int\<close> has 32 bits: every \<open>int\<close> expression of the source stays far inside
  that range and is written here on \<open>nat\<close> or \<open>int\<close>. \<open>uint8_t\<close> is \<open>8 word\<close>,
  \<open>uint16_t\<close> is \<open>16 word\<close>, with their wrap-around.

  A pointer with a size becomes the list of the bytes that were allocated, passed next to
  the size the caller gives. A read or a write outside the allocation is undefined
  behaviour in C++: the model returns \<open>None\<close> there, and nothing else returns \<open>None\<close>.
  Serial output and the LED indicator (\<open>blinkLEDs\<close>, \<open>digitalWrite\<close>) change
  nothing the protocol engine reads and are left out.
\<close>

type_synonym byte = "8 word"
type_synonym u16 = "16 word"

text \<open>Arduino's macros \<open>lowByte(w) = (uint8_t) ((w) & 0xff)\<close> and
  \<open>highByte(w) = (uint8_t) ((w) >> 8)\<close>, at a \<open>uint16_t\<close> argument.\<close>

definition lowByte :: "u16 \<Rightarrow> byte" where
  "lowByte w = ucast (w AND 0xff)"

definition highByte :: "u16 \<Rightarrow> byte" where
  "highByte w = ucast (drop_bit 8 w)"

text \<open>The expression \<open>(hi << 8) + lo\<close> on two bytes, stored in a \<open>uint16_t\<close>.\<close>

definition shl8_add :: "byte \<Rightarrow> byte \<Rightarrow> u16" where
  "shl8_add hi lo = push_bit 8 (ucast hi) + ucast lo"

definition OP_GROUP_REQUEST :: byte where "OP_GROUP_REQUEST = 0xde"
definition OP_GROUP_CONFIRM :: byte where "OP_GROUP_CONFIRM = 0xdf"
definition OP_CODE_GET :: byte where "OP_CODE_GET = 0x17"
definition OP_CODE_SET :: byte where "OP_CODE_SET = 0x18"

definition ATTRIBUTE_SCENE :: "byte list" where
  "ATTRIBUTE_SCENE = [0x91, 0x01, 0x00, 0x01, 0x04, 0xFF, 0xFF, 0x00, 0x00]"

definition ATTRIBUTE_CURRENT_SCENE :: "byte list" where
  "ATTRIBUTE_CURRENT_SCENE = [0x91, 0x01, 0x00, 0x01]"

definition ATTRIBUTE_OPERATION_STATE :: "byte list" where
  "ATTRIBUTE_OPERATION_STATE = [0x68, 0x00, 0x00, 0x01, 0x01, 0xFF]"

definition RESPONSE_DATA_SUCCESSFUL :: "byte list" where
  "RESPONSE_DATA_SUCCESSFUL = [0xFF, 0xFF]"

definition OPERATION_STATE_SCHEDULE :: byte where "OPERATION_STATE_SCHEDULE = 0x03"
definition FEED_SCENE_ID :: u16 where "FEED_SCENE_ID = 1"

definition GENERAL_SERVICE :: string where
  "GENERAL_SERVICE = ''01ff0100-ba5e-f4ee-5ca1-eb1e5e4b1ce0''"
definition REQUEST_CHARACTERISTIC :: string where
  "REQUEST_CHARACTERISTIC = ''01ff0104-ba5e-f4ee-5ca1-eb1e5e4b1ce0''"
definition RESPONSE_CHARACTERISTIC_1 :: string where
  "RESPONSE_CHARACTERISTIC_1 = ''01ff0101-ba5e-f4ee-5ca1-eb1e5e4b1ce0''"
definition RESPONSE_CHARACTERISTIC_2 :: string where
  "RESPONSE_CHARACTERISTIC_2 = ''01ff0102-ba5e-f4ee-5ca1-eb1e5e4b1ce0''"

subsection \<open>Memory\<close>

text \<open>\<open>load b i\<close> is \<open>b[i]\<close> on a buffer whose bytes are all defined; \<open>memcpy_from b off n\<close>
  is the \<open>n\<close> bytes that \<open>memcpy(dst, &b[off], n)\<close> reads.\<close>

definition load :: "byte list \<Rightarrow> nat \<Rightarrow> byte option" where
  "load b i = (if i < length b then Some (b ! i) else None)"

definition memcpy_from :: "byte list \<Rightarrow> nat \<Rightarrow> nat \<Rightarrow> byte list option" where
  "memcpy_from b off n = (if off + n \<le> length b then Some (take n (drop off b)) else None)"

text \<open>\<open>new uint8_t[n]\<close> does not initialise its bytes: a fresh array is \<open>n\<close> cells
  holding \<open>None\<close>, a write makes a cell \<open>Some\<close>, and reading a cell that was never
  written is undefined like a read out of range.\<close>

type_synonym cells = "byte option list"

definition new_array :: "nat \<Rightarrow> cells" where
  "new_array n = replicate n None"

definition store :: "cells \<Rightarrow> nat \<Rightarrow> byte \<Rightarrow> cells option" where
  "store c i v = (if i < length c then Some (c[i := Some v]) else None)"

definition read_cells :: "cells \<Rightarrow> nat \<Rightarrow> nat \<Rightarrow> byte list option" where
  "read_cells c off n = (if off + n \<le> length c then those (take n (drop off c)) else None)"

text \<open>Short-circuit \<open>a && b\<close> where evaluating \<open>b\<close> reads memory: \<open>b\<close> is not
  evaluated when \<open>a\<close> is false.\<close>

definition andalso :: "bool \<Rightarrow> bool option \<Rightarrow> bool option" where
  "andalso a b = (if a then b else Some False)"

section \<open>The device handle\<close>

text \<open>
  An ArduinoBLE characteristic handle. \<open>ch_valid\<close> is its \<open>operator bool\<close>,
  \<open>ch_canWrite\<close> and \<open>ch_canSubscribe\<close> its properties. The remote side is a script
  carried by the handle: \<open>ch_subscribeResult\<close> is what \<open>subscribe()\<close> will return,
  \<open>ch_writeResults\<close> what the successive calls of \<open>writeValue\<close> return (\<open>False\<close>
  once the script is used up), \<open>ch_updates\<close> what the successive polls of
  \<open>valueUpdated()\<close> see: \<open>None\<close> for no update, \<open>Some v\<close> for an update to value
  \<open>v\<close>. \<open>ch_written\<close> logs the frames passed to \<open>writeValue\<close>, \<open>ch_polls\<close> counts the
  calls of \<open>valueUpdated()\<close>.
\<close>

record BLECharacteristic =
  ch_valid :: bool
  ch_canWrite :: bool
  ch_canSubscribe :: bool
  ch_subscribeResult :: bool
  ch_subscribed :: bool
  ch_writeResults :: "bool list"
  ch_written :: "byte list list"
  ch_updates :: "byte list option list"
  ch_value :: "byte list"
  ch_polls :: nat

text \<open>The default-constructed handle \<open>BLECharacteristic()\<close>: not resolved.\<close>

definition unresolved :: BLECharacteristic where
  "unresolved = \<lparr> ch_valid = False, ch_canWrite = False, ch_canSubscribe = False,
     ch_subscribeResult = False, ch_subscribed = False, ch_writeResults = [],
     ch_written = [], ch_updates = [], ch_value = [], ch_polls = 0 \<rparr>"

definition subscribe :: "BLECharacteristic \<Rightarrow> bool \<times> BLECharacteristic" where
  "subscribe c = (ch_subscribeResult c, c\<lparr> ch_subscribed := ch_subscribeResult c \<rparr>)"

definition writeValue :: "BLECharacteristic \<Rightarrow> byte list \<Rightarrow> bool \<times> BLECharacteristic" where
  "writeValue c bytes =
     (case ch_writeResults c of
        [] \<Rightarrow> (False, c\<lparr> ch_written := ch_written c @ [bytes] \<rparr>)
      | r # rs \<Rightarrow> (r, c\<lparr> ch_writeResults := rs, ch_written := ch_written c @ [bytes] \<rparr>))"

definition valueUpdated :: "BLECharacteristic \<Rightarrow> bool \<times> BLECharacteristic" where
  "valueUpdated c =
     (case ch_updates c of
        [] \<Rightarrow> (False, c\<lparr> ch_polls := ch_polls c + 1 \<rparr>)
      | None # us \<Rightarrow> (False, c\<lparr> ch_updates := us, ch_polls := ch_polls c + 1 \<rparr>)
      | Some v # us \<Rightarrow>
          (True, c\<lparr> ch_updates := us, ch_value := v, ch_polls := ch_polls c + 1 \<rparr>))"

text \<open>\<open>readValue(buffer, n)\<close> copies at most \<open>n\<close> bytes of the current value and returns
  how many it copied.\<close>

definition readValue :: "BLECharacteristic \<Rightarrow> nat \<Rightarrow> byte list" where
  "readValue c n = take n (ch_value c)"

text \<open>
  A peripheral handle. \<open>dev_present\<close> is its \<open>operator bool\<close>. The remote side is a
  script again: \<open>dev_connectResults\<close> are the results of the successive calls of
  \<open>connect()\<close>, \<open>dev_discoverResults\<close> those of \<open>discoverService\<close>, where \<open>None\<close>
  is a failed discovery and \<open>Some t\<close> a discovery that found the characteristics
  \<open>t\<close> (by UUID). \<open>dev_attributes\<close> is what the last successful discovery found;
  the counters log the calls.
\<close>

record BLEDevice =
  dev_present :: bool
  dev_address :: string
  dev_connectResults :: "bool list"
  dev_discoverResults :: "(string \<times> BLECharacteristic) list option list"
  dev_attributes :: "(string \<times> BLECharacteristic) list"
  dev_connected :: bool
  dev_connectCalls :: nat
  dev_discoverCalls :: nat
  dev_disconnectCalls :: nat

text \<open>The default-constructed handle \<open>BLEDevice()\<close>.\<close>

definition no_device :: BLEDevice where
  "no_device = \<lparr> dev_present = False, dev_address = [], dev_connectResults = [],
     dev_discoverResults = [], dev_attributes = [], dev_connected = False,
     dev_connectCalls = 0, dev_discoverCalls = 0, dev_disconnectCalls = 0 \<rparr>"

definition dev_connect :: "BLEDevice \<Rightarrow> bool \<times> BLEDevice" where
  "dev_connect p =
     (case dev_connectResults p of
        [] \<Rightarrow> (False, p\<lparr> dev_connected := False, dev_connectCalls := dev_connectCalls p + 1 \<rparr>)
      | r # rs \<Rightarrow> (r, p\<lparr> dev_connectResults := rs, dev_connected := r,
                         dev_connectCalls := dev_connectCalls p + 1 \<rparr>))"

definition dev_disconnect :: "BLEDevice \<Rightarrow> BLEDevice" where
  "dev_disconnect p = p\<lparr> dev_connected := False, dev_disconnectCalls := dev_disconnectCalls p + 1 \<rparr>"

definition discoverService :: "BLEDevice \<Rightarrow> string \<Rightarrow> bool \<times> BLEDevice" where
  "discoverService p uuid =
     (case dev_discoverResults p of
        [] \<Rightarrow> (False, p\<lparr> dev_discoverCalls := dev_discoverCalls p + 1 \<rparr>)
      | None # ds \<Rightarrow> (False, p\<lparr> dev_discoverResults := ds, dev_discoverCalls := dev_discoverCalls p + 1 \<rparr>)
      | Some t # ds \<Rightarrow> (True, p\<lparr> dev_discoverResults := ds, dev_attributes := t,
                              dev_discoverCalls := dev_discoverCalls p + 1 \<rparr>))"

definition characteristic :: "BLEDevice \<Rightarrow> string \<Rightarrow> BLECharacteristic" where
  "characteristic p uuid = (case map_of (dev_attributes p) uuid of None \<Rightarrow> unresolved | Some c \<Rightarrow> c)"

text \<open>The local radio, the singleton \<open>BLE\<close>: the results of the successive calls of
  \<open>BLE.scanForAddress\<close> and of \<open>BLE.available()\<close> (\<open>BLEDevice()\<close> once the script is
  used up).\<close>

record BLELocalDevice =
  ble_scanResults :: "bool list"
  ble_availableResults :: "BLEDevice list"
  ble_scanning :: bool
  ble_scanCalls :: nat
  ble_availableCalls :: nat

definition scanForAddress :: "BLELocalDevice \<Rightarrow> string \<Rightarrow> bool \<times> BLELocalDevice" where
  "scanForAddress b addr =
     (case ble_scanResults b of
        [] \<Rightarrow> (False, b\<lparr> ble_scanCalls := ble_scanCalls b + 1 \<rparr>)
      | r # rs \<Rightarrow> (r, b\<lparr> ble_scanResults := rs, ble_scanning := (ble_scanning b \<or> r),
                         ble_scanCalls := ble_scanCalls b + 1 \<rparr>))"

definition available :: "BLELocalDevice \<Rightarrow> BLEDevice \<times> BLELocalDevice" where
  "available b =
     (case ble_availableResults b of
        [] \<Rightarrow> (no_device, b\<lparr> ble_availableCalls := ble_availableCalls b + 1 \<rparr>)
      | d # ds \<Rightarrow> (d, b\<lparr> ble_availableResults := ds, ble_availableCalls := ble_availableCalls b + 1 \<rparr>))"

definition stopScan :: "BLELocalDevice \<Rightarrow> BLELocalDevice" where
  "stopScan b = b\<lparr> ble_scanning := False \<rparr>"

text \<open>The private fields of class \<open>MobiusDevice\<close> (\<open>_device\<close>, \<open>_requestChar\<close>,
  \<open>_responseChar\<close>, \<open>_messageId\<close>, \<open>_address\<close>).\<close>

record MobiusDevice =
  device :: BLEDevice
  requestChar :: BLECharacteristic
  responseChar :: BLECharacteristic
  messageId :: u16
  address :: string

section \<open>Frame codec\<close>

subsection \<open>\<open>buildRequest\<close>\<close>

text \<open>The loop \<open>for (uint16_t i = 0; i < length; i++) request[9 + i] = data[i];\<close>.
  The counter stays below \<open>length\<close>, so it never wraps and is a \<open>nat\<close> here.\<close>

function copyData :: "byte list \<Rightarrow> nat \<Rightarrow> nat \<Rightarrow> cells \<Rightarrow> cells option" where
  "copyData data len i request =
     (if i < len then
        (case load data i of
           None \<Rightarrow> None
         | Some d \<Rightarrow>
             (case store request (9 + i) d of
                None \<Rightarrow> None
              | Some request' \<Rightarrow> copyData data len (i + 1) request'))
      else Some request)"
  by pat_completeness auto
termination
  by (relation "measure (\<lambda>(data, len, i, request). len - i)") auto

declare copyData.simps [simp del]

text \<open>
  \<open>crc16\<close> is \<open>MobiusCRC::crc16\<close>, whose header is not among the sources: it is a
  parameter, a function of the bytes it is handed (the \<open>n\<close> bytes from the pointer on)
  that returns a \<open>short\<close>, kept as its 16 bits. \<open>requestSize\<close> is a \<open>uint16_t\<close>, so
  \<open>length + 11\<close> wraps. \<open>requestSize - 3\<close> and the two last indexes are \<open>int\<close>
  expressions; they are reached only when the nine header bytes were stored, so
  \<open>requestSize\<close> is at least 9 there and the differences are not negative.
  \<open>crc >> 8\<close> shifts a signed value. The function returns the pointer and sets
  \<open>requestSize\<close>; the caller reads every byte of the frame, so the cells must all be
  written by then (\<open>those\<close>).
\<close>

definition buildRequest ::
  "(byte list \<Rightarrow> u16) \<Rightarrow> byte list \<Rightarrow> u16 \<Rightarrow> byte \<Rightarrow> u16 \<Rightarrow> MobiusDevice
     \<Rightarrow> ((byte list \<times> u16) \<times> MobiusDevice) option" where
  "buildRequest crc16 data len opCode reserved s =
     (let requestSize = len + 11 in
      do {
        request \<leftarrow> store (new_array (unat requestSize)) 0 0x02;
        request \<leftarrow> store request 1 OP_GROUP_REQUEST;
        request \<leftarrow> store request 2 opCode;
        request \<leftarrow> store request 3 (lowByte (messageId s));
        request \<leftarrow> store request 4 (highByte (messageId s));
        let s' = s\<lparr> messageId := messageId s + 1 \<rparr>;
        request \<leftarrow> store request 5 (highByte reserved);
        request \<leftarrow> store request 6 (lowByte reserved);
        request \<leftarrow> store request 7 (lowByte len);
        request \<leftarrow> store request 8 (highByte len);
        request \<leftarrow> copyData data (unat len) 0 request;
        covered \<leftarrow> read_cells request 1 (unat requestSize - 3);
        let crc = crc16 covered;
        request \<leftarrow> store request (unat requestSize - 2) (ucast crc);
        request \<leftarrow> store request (unat requestSize - 1) (ucast (signed_drop_bit 8 crc));
        frame \<leftarrow> those request;
        Some ((frame, requestSize), s')
      })"

subsection \<open>\<open>parseResponseData\<close>\<close>

text \<open>The validity test is a chain of \<open>&&\<close>: a byte of the response is read only when
  the tests before it held. \<open>memcpy(data, &response[9], dataSize)\<close> reads \<open>dataSize\<close>
  bytes whatever \<open>length\<close> is.\<close>

definition parseResponseData :: "byte list \<Rightarrow> u16 \<Rightarrow> (byte list \<times> u16) option" where
  "parseResponseData response len =
     do {
       isValid \<leftarrow> Some (11 < len);
       isValid \<leftarrow> andalso isValid (map_option (\<lambda>b. 0x02 = b) (load response 0));
       isValid \<leftarrow> andalso isValid (map_option (\<lambda>b. OP_GROUP_CONFIRM = b) (load response 1));
       if isValid then
         do {
           r8 \<leftarrow> load response 8;
           r7 \<leftarrow> load response 7;
           let dataSize = shl8_add r8 r7;
           data \<leftarrow> memcpy_from response 9 (unat dataSize);
           Some (data, dataSize)
         }
       else Some ([], 0)
     }"

subsection \<open>\<open>responseSuccessful\<close>\<close>

text \<open>The loop \<open>for (int i = 0; dataSuccess && i < dataSize - 1; i++)\<close>, which compares
  \<open>response[10 + i]\<close> with \<open>RESPONSE_DATA_SUCCESSFUL[i]\<close>. The local array
  \<open>resData\<close> is only written and is left out.\<close>

function checkData :: "byte list \<Rightarrow> int \<Rightarrow> nat \<Rightarrow> bool \<Rightarrow> bool option" where
  "checkData response dataSize i dataSuccess =
     (if dataSuccess \<and> int i < dataSize - 1 then
        (case load response (10 + i) of
           None \<Rightarrow> None
         | Some b \<Rightarrow>
             (case load RESPONSE_DATA_SUCCESSFUL i of
                None \<Rightarrow> None
              | Some m \<Rightarrow> checkData response dataSize (i + 1) (dataSuccess \<and> b = m)))
      else Some dataSuccess)"
  by pat_completeness auto
termination
  by (relation "measure (\<lambda>(response, dataSize, i, dataSuccess). nat (dataSize - 1 - int i))") auto

declare checkData.simps [simp del]

definition responseSuccessful :: "byte list \<Rightarrow> u16 \<Rightarrow> byte list \<Rightarrow> u16 \<Rightarrow> bool option" where
  "responseSuccessful request reqSize response resSize =
     (let lengthsValid = (11 < reqSize \<and> 11 < resSize) in
      if lengthsValid then
        do {
          q0 \<leftarrow> load request 0;
          r0 \<leftarrow> load response 0;
          idValid \<leftarrow> Some (q0 = r0);
          idValid \<leftarrow> andalso idValid (map_option (\<lambda>b. b = OP_GROUP_CONFIRM) (load response 1));
          idValid \<leftarrow> andalso idValid
            (do { q \<leftarrow> load request 2; r \<leftarrow> load response 2; Some (q = r) });
          idValid \<leftarrow> andalso idValid
            (do { q \<leftarrow> load request 3; r \<leftarrow> load response 3; Some (q = r) });
          idValid \<leftarrow> andalso idValid
            (do { q \<leftarrow> load request 4; r \<leftarrow> load response 4; Some (q = r) });
          r8 \<leftarrow> load response 8;
          r7 \<leftarrow> load response 7;
          let dataSize = uint r8 * 256 + uint r7;
          dataSuccess \<leftarrow> Some (3 = dataSize);
          dataSuccess \<leftarrow> andalso dataSuccess (map_option (\<lambda>b. 0x00 = b) (load response 9));
          dataSuccess \<leftarrow> checkData response dataSize 0 dataSuccess;
          Some (lengthsValid \<and> idValid \<and> dataSuccess)
        }
      else Some False)"

section \<open>Request/response exchange\<close>

text \<open>The polling loop of \<open>sendRequest\<close>:
  \<open>for (uint8_t i = 0; sent && !received && i < 5; i++)\<close>. Each round asks
  \<open>valueUpdated()\<close> once; on an update it reads at most 255 bytes, which replace the
  response, and \<open>received\<close> becomes \<open>0 < responseSize\<close>.\<close>

function awaitResponse ::
  "nat \<Rightarrow> bool \<Rightarrow> bool \<Rightarrow> BLECharacteristic \<Rightarrow> byte list \<Rightarrow> byte list \<times> BLECharacteristic" where
  "awaitResponse i sent received rc response =
     (if sent \<and> \<not> received \<and> i < 5 then
        (case valueUpdated rc of
           (True, rc') \<Rightarrow>
             (let responseValue = readValue rc' 255
              in awaitResponse (i + 1) sent (0 < length responseValue) rc' responseValue)
         | (False, rc') \<Rightarrow> awaitResponse (i + 1) sent received rc' response)
      else (response, rc))"
  by pat_completeness auto
termination
  by (relation "measure (\<lambda>(i, sent, received, rc, response). 5 - i)") auto

declare awaitResponse.simps [simp del]

text \<open>\<open>sendRequest\<close> copies \<open>length\<close> bytes of the request, writes them once, and polls.
  The response it returns is an array of exactly \<open>responseSize\<close> bytes.\<close>

definition sendRequest ::
  "byte list \<Rightarrow> u16 \<Rightarrow> MobiusDevice \<Rightarrow> ((byte list \<times> u16) \<times> MobiusDevice) option" where
  "sendRequest request len s =
     do {
       toSend \<leftarrow> memcpy_from request 0 (unat len);
       let (sent, qc) = writeValue (requestChar s) toSend;
       let (response, rc) = awaitResponse 0 sent False (responseChar s) [];
       Some ((response, of_nat (length response)), s\<lparr> requestChar := qc, responseChar := rc \<rparr>)
     }"

section \<open>Attribute get and set\<close>

definition setData ::
  "(byte list \<Rightarrow> u16) \<Rightarrow> byte list \<Rightarrow> u16 \<Rightarrow> bool \<Rightarrow> MobiusDevice \<Rightarrow> (bool \<times> MobiusDevice) option" where
  "setData crc16 data len doVerification s =
     do {
       ((req, reqSize), s1) \<leftarrow> buildRequest crc16 data len OP_CODE_SET 0x0800 s;
       ((res, resSize), s2) \<leftarrow> sendRequest req reqSize s1;
       verified \<leftarrow> (if 0 < resSize \<and> doVerification
                    then responseSuccessful req reqSize res resSize else Some False);
       Some (verified \<or> \<not> doVerification, s2)
     }"

definition getData ::
  "(byte list \<Rightarrow> u16) \<Rightarrow> byte list \<Rightarrow> u16 \<Rightarrow> MobiusDevice
     \<Rightarrow> ((byte list \<times> u16) \<times> MobiusDevice) option" where
  "getData crc16 data len s =
     do {
       ((req, reqSize), s1) \<leftarrow> buildRequest crc16 data len OP_CODE_GET 0x0000 s;
       ((res, resSize), s2) \<leftarrow> sendRequest req reqSize s1;
       (responseData, dataSize) \<leftarrow> parseResponseData res resSize;
       Some ((responseData, dataSize), s2)
     }"

text \<open>\<open>getCurrentScene\<close> reads \<open>body[7]\<close>, then \<open>body[6]\<close>, of the array of
  \<open>bodySize\<close> bytes that \<open>getData\<close> returns; it does not look at \<open>bodySize\<close>.\<close>

definition getCurrentScene ::
  "(byte list \<Rightarrow> u16) \<Rightarrow> MobiusDevice \<Rightarrow> (u16 \<times> MobiusDevice) option" where
  "getCurrentScene crc16 s =
     do {
       let attSize = of_nat (length ATTRIBUTE_CURRENT_SCENE);
       let attributes = ATTRIBUTE_CURRENT_SCENE;
       ((body, bodySize), s') \<leftarrow> getData crc16 attributes attSize s;
       b7 \<leftarrow> load body 7;
       b6 \<leftarrow> load body 6;
       Some (shl8_add b7 b6, s')
     }"

section \<open>Connecting\<close>

text \<open>\<open>c && c.canSubscribe() && c.subscribe()\<close>: \<open>subscribe()\<close> is called only on a
  handle that is valid and can be subscribed.\<close>

definition trySubscribe :: "BLECharacteristic \<Rightarrow> bool \<times> BLECharacteristic" where
  "trySubscribe c = (if ch_valid c \<and> ch_canSubscribe c then subscribe c else (False, c))"

definition connectToCharacteristics :: "BLEDevice \<Rightarrow> MobiusDevice \<Rightarrow> bool \<times> MobiusDevice" where
  "connectToCharacteristics peripheral s =
     (let s1 = s\<lparr> requestChar := characteristic peripheral REQUEST_CHARACTERISTIC \<rparr>;
          hasRequestChar = (ch_valid (requestChar s1) \<and> ch_canWrite (requestChar s1));
          (hasResponseChar1, responseChar1) =
             trySubscribe (characteristic peripheral RESPONSE_CHARACTERISTIC_1);
          (hasResponseChar2, rc2) =
             trySubscribe (characteristic peripheral RESPONSE_CHARACTERISTIC_2);
          s2 = s1\<lparr> responseChar := rc2 \<rparr>;
          s3 = (if \<not> hasRequestChar \<or> \<not> hasResponseChar1 \<or> \<not> hasResponseChar2
                then s2\<lparr> requestChar := unresolved, responseChar := unresolved \<rparr>
                else s2)
      in (hasRequestChar \<and> hasResponseChar1 \<and> hasResponseChar2, s3))"

text \<open>The inner loop of \<open>connectTo(BLEDevice&)\<close>:
  \<open>for (uint8_t j = 0; !charsConnected && j < 3; j++)\<close>.\<close>

function discoverLoop ::
  "nat \<Rightarrow> bool \<Rightarrow> BLEDevice \<Rightarrow> MobiusDevice \<Rightarrow> bool \<times> BLEDevice \<times> MobiusDevice" where
  "discoverLoop j charsConnected p s =
     (if \<not> charsConnected \<and> j < 3 then
        (case discoverService p GENERAL_SERVICE of
           (True, p') \<Rightarrow>
             (case connectToCharacteristics p' s of
                (cc, s') \<Rightarrow> discoverLoop (j + 1) cc p' s')
         | (False, p') \<Rightarrow> discoverLoop (j + 1) charsConnected p' s)
      else (charsConnected, p, s))"
  by pat_completeness auto
termination
  by (relation "measure (\<lambda>(j, charsConnected, p, s). 3 - j)") auto

declare discoverLoop.simps [simp del]

text \<open>The outer loop:
  \<open>for (uint8_t i = 0; !hasConnected && !charsConnected && i < 2; i++)\<close>. A round
  calls \<open>peripheral.connect()\<close> once; when that succeeded and the characteristics
  were not resolved, it disconnects.\<close>

function connectLoop ::
  "nat \<Rightarrow> bool \<Rightarrow> bool \<Rightarrow> BLEDevice \<Rightarrow> MobiusDevice \<Rightarrow> bool \<times> BLEDevice \<times> MobiusDevice" where
  "connectLoop i hasConnected charsConnected p s =
     (if \<not> hasConnected \<and> \<not> charsConnected \<and> i < 2 then
        (case dev_connect p of
           (True, p') \<Rightarrow>
             (case discoverLoop 0 charsConnected p' s of
                (cc, p'', s') \<Rightarrow>
                  connectLoop (i + 1) True cc (if cc then p'' else dev_disconnect p'') s')
         | (False, p') \<Rightarrow> connectLoop (i + 1) False charsConnected p' s)
      else (charsConnected, p, s))"
  by pat_completeness auto
termination
  by (relation "measure (\<lambda>(i, hasConnected, charsConnected, p, s). 2 - i)") auto

declare connectLoop.simps [simp del]

text \<open>\<open>connectTo(BLEDevice& peripheral)\<close>; it returns \<open>charsConnected\<close>.\<close>

definition connectTo_peripheral ::
  "BLEDevice \<Rightarrow> MobiusDevice \<Rightarrow> bool \<times> BLEDevice \<times> MobiusDevice" where
  "connectTo_peripheral peripheral s = connectLoop 0 False False peripheral s"

text \<open>The two loops of \<open>connectTo(String address)\<close>:
  \<open>for (uint8_t i = 0; !BLE.scanForAddress(address) && i < 4; i++)\<close>, whose test
  starts the scan before it looks at \<open>i\<close>, and
  \<open>for (uint8_t i = 0; !_device && i < 26; i++) _device = BLE.available();\<close>.\<close>

function scanLoop :: "nat \<Rightarrow> BLELocalDevice \<Rightarrow> string \<Rightarrow> BLELocalDevice" where
  "scanLoop i b addr =
     (case scanForAddress b addr of
        (started, b') \<Rightarrow> if \<not> started \<and> i < 4 then scanLoop (i + 1) b' addr else b')"
  by pat_completeness auto
termination
  by (relation "measure (\<lambda>(i, b, addr). 4 - i)") auto

declare scanLoop.simps [simp del]

function availableLoop :: "nat \<Rightarrow> BLEDevice \<Rightarrow> BLELocalDevice \<Rightarrow> BLEDevice \<times> BLELocalDevice" where
  "availableLoop i dev b =
     (if \<not> dev_present dev \<and> i < 26 then
        (case available b of (dev', b') \<Rightarrow> availableLoop (i + 1) dev' b')
      else (dev, b))"
  by pat_completeness auto
termination
  by (relation "measure (\<lambda>(i, dev, b). 26 - i)") auto

declare availableLoop.simps [simp del]

text \<open>\<open>connectTo(String address)\<close>. The peripheral passed to
  \<open>connectTo(BLEDevice&)\<close> is a reference to \<open>_device\<close>, so what the call did to it is
  stored back; the result is \<open>_device\<close> converted to \<open>bool\<close>.\<close>

definition connectTo_address ::
  "string \<Rightarrow> BLELocalDevice \<Rightarrow> MobiusDevice \<Rightarrow> bool \<times> BLELocalDevice \<times> MobiusDevice" where
  "connectTo_address addr b s =
     (let s0 = s\<lparr> device := no_device \<rparr>;
          b1 = scanLoop 0 b addr;
          (d, b2) = availableLoop 0 (device s0) b1;
          s1 = s0\<lparr> device := d \<rparr>;
          b3 = stopScan b2
      in if dev_present (device s1) then
           (case connectTo_peripheral (device s1) s1 of
              (ok, p, s2) \<Rightarrow>
                (let s3 = (if \<not> ok then s2\<lparr> device := no_device \<rparr> else s2\<lparr> device := p \<rparr>)
                 in (dev_present (device s3), b3, s3)))
         else (dev_present (device s1), b3, s1))"

text \<open>\<open>connect()\<close>: the message id is set to 2, then the address is connected to.\<close>

definition connect :: "BLELocalDevice \<Rightarrow> MobiusDevice \<Rightarrow> bool \<times> BLELocalDevice \<times> MobiusDevice" where
  "connect b s = connectTo_address (address s) b (s\<lparr> messageId := 2 \<rparr>)"

section \<open>The frame layout of the specification\<close>

text \<open>
  The request frame as section 3 of the specification lays it out, to compare
  \<open>buildRequest\<close> with: the start byte, the request tag, the op code, the message id
  low byte first, the reserved word high byte first, the data length low byte first,
  the data, and the checksum low byte first. \<open>slice xs a b\<close> is the half-open range
  \<open>[a, b)\<close> of a buffer. The checksum is taken over \<open>slice frame 1 (total - 2)\<close>, the
  \<open>total - 3\<close> bytes after the start byte that \<open>buildRequest\<close> hands to \<open>crc16\<close>,
  and not over \<open>slice frame 1 (total - 3)\<close>.
\<close>

definition slice :: "byte list \<Rightarrow> nat \<Rightarrow> nat \<Rightarrow> byte list" where
  "slice xs a b = take (b - a) (drop a xs)"

definition request_header :: "u16 \<Rightarrow> byte \<Rightarrow> u16 \<Rightarrow> u16 \<Rightarrow> byte list" where
  "request_header len opCode reserved mid =
     [0x02, OP_GROUP_REQUEST, opCode, lowByte mid, highByte mid,
      highByte reserved, lowByte reserved, lowByte len, highByte len]"

definition frame_layout ::
  "(byte list \<Rightarrow> u16) \<Rightarrow> byte list \<Rightarrow> u16 \<Rightarrow> byte \<Rightarrow> u16 \<Rightarrow> u16 \<Rightarrow> byte list" where
  "frame_layout crc16 data len opCode reserved mid =
     (let body = request_header len opCode reserved mid @ data;
          crc = crc16 (drop 1 body)
      in body @ [lowByte crc, highByte crc])"

text \<open>The message id a frame carries: bytes 3 and 4, low byte first.\<close>

definition frameMessageId :: "byte list \<Rightarrow> u16" where
  "frameMessageId frame = shl8_add (frame ! 4) (frame ! 3)"

text \<open>Encoding a request and decoding the very frame that was built.\<close>

definition encode_then_decode ::
  "(byte list \<Rightarrow> u16) \<Rightarrow> byte list \<Rightarrow> u16 \<Rightarrow> byte \<Rightarrow> u16 \<Rightarrow> MobiusDevice
     \<Rightarrow> (byte list \<times> u16) option" where
  "encode_then_decode crc16 data len opCode reserved s =
     do {
       ((frame, requestSize), s') \<leftarrow> buildRequest crc16 data len opCode reserved s;
       parseResponseData frame requestSize
     }"

text \<open>The same with the tag a device answers with: the frame that was built, its
  op-group byte (byte 1) replaced by the confirm tag, is decoded.\<close>

definition encode_confirm_decode ::
  "(byte list \<Rightarrow> u16) \<Rightarrow> byte list \<Rightarrow> u16 \<Rightarrow> byte \<Rightarrow> u16 \<Rightarrow> MobiusDevice
     \<Rightarrow> (byte list \<times> u16) option" where
  "encode_confirm_decode crc16 data len opCode reserved s =
     do {
       ((frame, requestSize), s') \<leftarrow> buildRequest crc16 data len opCode reserved s;
       parseResponseData (frame[1 := OP_GROUP_CONFIRM]) requestSize
     }"

section \<open>Example sessions\<close>

text \<open>A checksum to run the examples with: the number of bytes it is handed. Any function
  can stand for \<open>crc16\<close>; this one tells two byte ranges of different lengths apart.\<close>

definition count_crc :: "byte list \<Rightarrow> u16" where
  "count_crc bytes = of_nat (length bytes)"

text \<open>A device handle before any connection, with message id 2.\<close>

definition fresh_device :: MobiusDevice where
  "fresh_device = \<lparr> device = no_device, requestChar = unresolved, responseChar = unresolved,
     messageId = 2, address = ''AA:BB:CC:DD:EE:FF'' \<rparr>"

text \<open>A SET request of 17 bytes with message id 2, and a confirmation of 14 bytes that
  answers it: same start byte, op code and message id, the confirm tag, a data length
  of 3, the data \<open>0x00 0xFF 0xFF\<close>, and two checksum bytes.\<close>

definition set_request :: "byte list" where
  "set_request = [0x02, 0xDE, 0x18, 0x02, 0x00, 0x08, 0x00, 0x06, 0x00,
                  0x68, 0x00, 0x00, 0x01, 0x01, 0x03, 0x0E, 0x00]"

definition set_confirm :: "byte list" where
  "set_confirm = [0x02, 0xDF, 0x18, 0x02, 0x00, 0x00, 0x00, 0x03, 0x00,
                  0x00, 0xFF, 0xFF, 0x12, 0x34]"

text \<open>A poll is quiet when it sees no update, or an update to the empty value (which
  \<open>sendRequest\<close> reads as \<open>responseSize = 0\<close> and does not count as received).\<close>

definition quiet :: "byte list option \<Rightarrow> bool" where
  "quiet u = (u = None \<or> u = Some [])"

text \<open>Handles of a connected device. The request characteristic accepts one write. In
  \<open>silent_session\<close> the response characteristic reports no update for five polls and
  would report one at the sixth; in \<open>answering_session\<close> the first poll sees nothing,
  the second an empty value and the third the confirmation \<open>set_confirm\<close>.\<close>

definition writable :: BLECharacteristic where
  "writable = unresolved\<lparr> ch_valid := True, ch_canWrite := True, ch_writeResults := [True] \<rparr>"

definition notifying :: "byte list option list \<Rightarrow> BLECharacteristic" where
  "notifying script = unresolved\<lparr> ch_valid := True, ch_canSubscribe := True,
     ch_subscribeResult := True, ch_subscribed := True, ch_updates := script \<rparr>"

definition silent_session :: MobiusDevice where
  "silent_session = fresh_device\<lparr> requestChar := writable,
     responseChar := notifying [None, None, None, None, None, Some set_confirm] \<rparr>"

definition answering_session :: MobiusDevice where
  "answering_session = fresh_device\<lparr> requestChar := writable,
     responseChar := notifying [None, Some [], Some set_confirm] \<rparr>"

text \<open>Two answers to the current-scene request with message id 2. The data segment of
  \<open>scene_response7\<close> is the 7 bytes \<open>91 01 00 01 04 02 00\<close>; that of
  \<open>scene_response8\<close> is the same 7 bytes after a leading \<open>00\<close>, 8 bytes in all.\<close>

definition scene_response7 :: "byte list" where
  "scene_response7 = [0x02, 0xDF, 0x17, 0x02, 0x00, 0x00, 0x00, 0x07, 0x00,
                      0x91, 0x01, 0x00, 0x01, 0x04, 0x02, 0x00, 0xAB, 0xCD]"

definition scene_response8 :: "byte list" where
  "scene_response8 = [0x02, 0xDF, 0x17, 0x02, 0x00, 0x00, 0x00, 0x08, 0x00,
                      0x00, 0x91, 0x01, 0x00, 0x01, 0x04, 0x02, 0x00, 0xAB, 0xCD]"

definition scene7_session :: MobiusDevice where
  "scene7_session = fresh_device\<lparr> requestChar := writable,
     responseChar := notifying [Some scene_response7] \<rparr>"

definition scene8_session :: MobiusDevice where
  "scene8_session = fresh_device\<lparr> requestChar := writable,
     responseChar := notifying [Some scene_response8] \<rparr>"

text \<open>A Mobius peripheral: the three characteristics of the general service, found by the
  first service discovery after a connect that succeeds. \<open>no_notify_gatt\<close> lacks the
  first response characteristic. \<open>flaky_peripheral\<close> would accept two connects, and
  fails three discoveries before one would succeed. \<open>radio\<close> starts its scan at once and
  offers the peripheral at the second poll.\<close>

definition mobius_gatt :: "(string \<times> BLECharacteristic) list" where
  "mobius_gatt = [(REQUEST_CHARACTERISTIC, writable),
                  (RESPONSE_CHARACTERISTIC_1, notifying []\<lparr> ch_subscribed := False \<rparr>),
                  (RESPONSE_CHARACTERISTIC_2, notifying [Some scene_response8]\<lparr> ch_subscribed := False \<rparr>)]"

definition no_notify_gatt :: "(string \<times> BLECharacteristic) list" where
  "no_notify_gatt = [(REQUEST_CHARACTERISTIC, writable),
                     (RESPONSE_CHARACTERISTIC_2, notifying []\<lparr> ch_subscribed := False \<rparr>)]"

definition mobius_peripheral :: BLEDevice where
  "mobius_peripheral = no_device\<lparr> dev_present := True, dev_address := ''AA:BB:CC:DD:EE:FF'',
     dev_connectResults := [True], dev_discoverResults := [Some mobius_gatt] \<rparr>"

definition flaky_peripheral :: BLEDevice where
  "flaky_peripheral = no_device\<lparr> dev_present := True, dev_address := ''AA:BB:CC:DD:EE:FF'',
     dev_connectResults := [True, True],
     dev_discoverResults := [None, None, None, Some mobius_gatt] \<rparr>"

definition radio :: BLELocalDevice where
  "radio = \<lparr> ble_scanResults = [True], ble_availableResults = [no_device, mobius_peripheral],
     ble_scanning = False, ble_scanCalls = 0, ble_availableCalls = 0 \<rparr>"

text \<open>The handle after \<open>connect()\<close> found and connected to \<open>mobius_peripheral\<close> through
  \<open>radio\<close>.\<close>

definition connected_session :: MobiusDevice where
  "connected_session = \<lparr> device = mobius_peripheral\<lparr> dev_connectResults := [],
       dev_discoverResults := [], dev_attributes := mobius_gatt, dev_connected := True,
       dev_connectCalls := 1, dev_discoverCalls := 1 \<rparr>,
     requestChar = writable, responseChar = notifying [Some scene_response8],
     messageId = 2, address = ''AA:BB:CC:DD:EE:FF'' \<rparr>"

section \<open>Bytes of a 16-bit value\<close>

lemma unat_lowByte: "unat (lowByte w) = unat w mod 256"
proof -
  have m: "(0xff :: u16) = mask 8" by (simp add: mask_eq_exp_minus_1)
  have "unat (lowByte w) = take_bit 8 (take_bit 8 (unat w))"
    unfolding lowByte_def m
    by (simp add: unsigned_ucast_eq unsigned_take_bit_eq flip: take_bit_eq_mask)
  then show ?thesis by (simp add: take_bit_eq_mod)
qed

lemma unat_highByte: "unat (highByte w) = unat w div 256"
proof -
  have lt: "unat w < 65536" using unsigned_less [of w, where 'a = nat] by simp
  have "unat (highByte w) = take_bit 8 (drop_bit 8 (unat w))"
    unfolding highByte_def by (simp add: unsigned_ucast_eq unat_drop_bit_eq)
  also have "\<dots> = (unat w div 256) mod 256" by (simp add: take_bit_eq_mod drop_bit_eq_div)
  also have "\<dots> = unat w div 256" using lt by simp
  finally show ?thesis .
qed

lemma unat_shl8_add: "unat (shl8_add hi lo) = unat hi * 256 + unat lo"
proof -
  have h: "unat hi < 256" and l: "unat lo < 256"
    using unsigned_less [of hi, where 'a = nat] unsigned_less [of lo, where 'a = nat] by simp_all
  then show ?thesis
    unfolding shl8_add_def
    by (simp add: unat_word_ariths unsigned_push_bit_eq unsigned_ucast_eq take_bit_eq_mod push_bit_eq_mult)
qed

lemma hi_lo: "shl8_add (highByte w) (lowByte w) = w"
  by (simp add: word_unat_eq_iff unat_shl8_add unat_lowByte unat_highByte)

lemma crc_hi: "(ucast (signed_drop_bit 8 (c::u16)) :: byte) = highByte c"
  unfolding highByte_def
  by (rule bit_word_eqI) (auto simp: bit_simps)

lemma crc_lo: "(ucast (c::u16) :: byte) = lowByte c"
  by (simp add: word_unat_eq_iff unat_lowByte unsigned_ucast_eq take_bit_eq_mod)

section \<open>The frame that \<open>buildRequest\<close> builds\<close>

lemma copyData_fill:
  assumes "length hdr = 9" "length data = L" "i \<le> L"
  shows "copyData data L i (hdr @ map Some (take i data) @ replicate (L - i) None @ rest) =
         Some (hdr @ map Some data @ rest)"
  using assms
proof (induction "L - i" arbitrary: i)
  case 0
  then show ?case by (simp add: copyData.simps)
next
  case (Suc k)
  then have lt: "i < L" by simp
  have rep: "replicate (L - i) None = (None :: byte option) # replicate (L - Suc i) None"
    using lt by (cases "L - i") (auto simp: Suc_diff_Suc)
  have upd: "(hdr @ map Some (take i data) @ replicate (L - i) None @ rest)[9 + i := Some (data ! i)]
       = hdr @ map Some (take (Suc i) data) @ replicate (L - Suc i) None @ rest"
    using Suc.prems lt by (simp add: rep list_update_append take_Suc_conv_app_nth)
  have "copyData data L (Suc i) (hdr @ map Some (take (Suc i) data) @ replicate (L - Suc i) None @ rest)
        = Some (hdr @ map Some data @ rest)"
    using Suc by (intro Suc.hyps(1)) auto
  then show ?case
    using lt Suc.prems upd by (subst copyData.simps) (simp add: load_def store_def)
qed


lemma those_map_Some: "those (map Some xs) = Some xs"
  by (induction xs) auto

lemma header_stores:
  "do {
     request \<leftarrow> store (new_array (n + 11)) 0 h0;
     request \<leftarrow> store request 1 h1;
     request \<leftarrow> store request 2 h2;
     request \<leftarrow> store request 3 h3;
     request \<leftarrow> store request 4 h4;
     request \<leftarrow> store request 5 h5;
     request \<leftarrow> store request 6 h6;
     request \<leftarrow> store request 7 h7;
     request \<leftarrow> store request 8 h8;
     k request
   } = k (map Some [h0, h1, h2, h3, h4, h5, h6, h7, h8] @ replicate (n + 2) None)"
proof -
  have "replicate (n + 11) (None :: byte option)
      = [None, None, None, None, None, None, None, None, None] @ replicate (n + 2) None"
    by (simp add: numeral_eq_Suc replicate_append_same)
  then show ?thesis
    by (simp add: new_array_def store_def numeral_eq_Suc)
qed

lemma covered_cells:
  assumes "length xs = n + 9"
  shows "read_cells (map Some xs @ [None, None]) 1 (n + 8) = Some (drop 1 xs)"
proof -
  have t: "take (n + 8) (drop 1 (map Some xs @ [None, None])) = map Some (drop 1 xs)"
    using assms by (simp add: drop_map)
  have le: "1 + (n + 8) \<le> length (map Some xs @ [None, None])"
    using assms by simp
  show ?thesis
    unfolding read_cells_def using le by (simp only: t if_True those_map_Some)
qed

lemma trailer_cells:
  assumes "length xs = n + 9"
  shows "those ((map Some xs @ [None, None])[n + 9 := Some a, n + 10 := Some b])
         = Some (xs @ [a, b])"
proof -
  have "(map Some xs @ [None, None])[n + 9 := Some a, n + 10 := Some b]
        = map Some (xs @ [a, b])"
    using assms by (simp add: list_update_append)
  then show ?thesis by (simp only: those_map_Some)
qed

lemma trailer_stores:
  assumes "length xs = n + 9"
  shows "do {
           request \<leftarrow> store (map Some xs @ [None, None]) (n + 11 - 2) a;
           request \<leftarrow> store request (n + 11 - 1) b;
           frame \<leftarrow> those request;
           k frame
         } = k (xs @ [a, b])"
proof -
  have i: "n + 11 - 2 = n + 9" "n + 11 - 1 = n + 10" by simp_all
  have s1: "store (map Some xs @ [None, None]) (n + 9) a
            = Some ((map Some xs @ [None, None])[n + 9 := Some a])"
    using assms by (simp add: store_def)
  have s2: "store ((map Some xs @ [None, None])[n + 9 := Some a]) (n + 10) b
            = Some ((map Some xs @ [None, None])[n + 9 := Some a, n + 10 := Some b])"
    using assms by (simp add: store_def)
  show ?thesis
    by (simp only: i s1 s2 Option.bind.simps trailer_cells [OF assms])
qed

lemma buildRequest_frame:
  assumes len: "length data = unat len" and fits: "unat len + 11 < 65536"
  shows "buildRequest crc16 data len opCode reserved s =
         Some ((frame_layout crc16 data len opCode reserved (messageId s), len + 11),
               s\<lparr> messageId := messageId s + 1 \<rparr>)"
proof -
  let ?L = "unat len"
  let ?hdr = "request_header len opCode reserved (messageId s)"
  have size: "unat (len + 11) = ?L + 11"
    using fits by (simp add: unat_word_ariths)
  have hl: "length ?hdr = 9" by (simp add: request_header_def)
  have r2: "replicate (?L + 2) (None :: byte option) = replicate ?L None @ [None, None]"
    by (simp only: replicate_add) (simp add: numeral_2_eq_2)
  have copy: "copyData data ?L 0 (map Some ?hdr @ replicate (?L + 2) None)
              = Some (map Some ?hdr @ map Some data @ [None, None])"
    unfolding r2
    using copyData_fill [of "map Some ?hdr" data ?L 0 "[None, None]"] len hl
    by simp
  have cat: "map Some ?hdr @ map Some data @ [None, None] = map Some (?hdr @ data) @ [None, None]"
    by simp
  have n: "length (?hdr @ data) = ?L + 9"
    using len hl by simp
  have cov: "read_cells (map Some (?hdr @ data) @ [None, None]) 1 (?L + 11 - 3)
             = Some (drop 1 (?hdr @ data))"
  proof -
    have "?L + 11 - 3 = ?L + 8" by simp
    then show ?thesis by (simp only: covered_cells [OF n])
  qed
  show ?thesis
    unfolding buildRequest_def Let_def size header_stores
    unfolding request_header_def [of len opCode reserved "messageId s", symmetric]
    by (simp only: copy cov Option.bind.simps cat trailer_stores [OF n] frame_layout_def Let_def crc_hi)
       (simp only: crc_lo append_assoc)
qed



lemma length_frame_layout:
  "length (frame_layout crc16 data len opCode reserved mid) = length data + 11"
  by (simp add: frame_layout_def request_header_def Let_def)

lemma size_gt_11:
  assumes "unat (len :: u16) + 11 < 65536"
  shows "(11 < len + 11) = (len \<noteq> 0)"
proof -
  have "unat (len + 11) = unat len + 11"
    using assms by (simp add: unat_word_ariths)
  then show ?thesis
    by (simp add: word_less_nat_alt unat_gt_0)
qed

lemma parse_unmodified:
  shows "parseResponseData (frame_layout crc16 data len opCode reserved mid) (len + 11) = Some ([], 0)"
  by (simp add: parseResponseData_def andalso_def load_def frame_layout_def request_header_def
      Let_def OP_GROUP_CONFIRM_def OP_GROUP_REQUEST_def)

lemma parse_confirm:
  assumes len: "length data = unat len" and fits: "unat len + 11 < 65536"
  shows "parseResponseData ((frame_layout crc16 data len opCode reserved mid)[1 := OP_GROUP_CONFIRM])
           (len + 11) = Some (data, len)"
proof (cases "len = 0")
  case True
  then show ?thesis
    using len by (simp add: parseResponseData_def andalso_def)
next
  case False
  then have gt: "11 < len + 11" using size_gt_11 [OF fits] by simp
  have f: "(frame_layout crc16 data len opCode reserved mid)[1 := OP_GROUP_CONFIRM]
           = [0x02, OP_GROUP_CONFIRM, opCode, lowByte mid, highByte mid,
              highByte reserved, lowByte reserved, lowByte len, highByte len]
             @ data @ [lowByte (crc16 (drop 1 (request_header len opCode reserved mid @ data))),
                       highByte (crc16 (drop 1 (request_header len opCode reserved mid @ data)))]"
    by (simp add: frame_layout_def request_header_def Let_def)
  show ?thesis
    unfolding f using gt len
    by (simp add: parseResponseData_def andalso_def load_def memcpy_from_def hi_lo)
qed


lemma frame_layout_covered:
  "slice (frame_layout crc16 data len opCode reserved mid) 1 (length data + 11 - 2)
   = drop 1 (request_header len opCode reserved mid @ data)"
proof -
  have "length (request_header len opCode reserved mid) = 9"
    by (simp add: request_header_def)
  then show ?thesis
    by (simp add: slice_def frame_layout_def Let_def)
qed

lemma frame_layout_data:
  "slice (frame_layout crc16 data len opCode reserved mid) 9 (9 + length data) = data"
  by (simp add: slice_def frame_layout_def Let_def request_header_def)

lemma nth_trailer:
  assumes "length xs = n"
  shows "(xs @ [a, b]) ! n = a" and "(xs @ [a, b]) ! (n + 1) = b"
  using assms by (auto simp: nth_append)

lemma frame_layout_crc:
  "frame_layout crc16 data len opCode reserved mid ! (length data + 9)
     = lowByte (crc16 (drop 1 (request_header len opCode reserved mid @ data)))"
  "frame_layout crc16 data len opCode reserved mid ! (length data + 10)
     = highByte (crc16 (drop 1 (request_header len opCode reserved mid @ data)))"
proof -
  have l: "length (request_header len opCode reserved mid @ data) = length data + 9"
    by (simp add: request_header_def)
  have j: "length data + 10 = length data + 9 + 1" by simp
  show "frame_layout crc16 data len opCode reserved mid ! (length data + 9)
     = lowByte (crc16 (drop 1 (request_header len opCode reserved mid @ data)))"
    unfolding frame_layout_def Let_def by (rule nth_trailer(1) [OF l])
  show "frame_layout crc16 data len opCode reserved mid ! (length data + 10)
     = highByte (crc16 (drop 1 (request_header len opCode reserved mid @ data)))"
    unfolding frame_layout_def Let_def j by (rule nth_trailer(2) [OF l])
qed

lemma unat_low_high:
  "unat (lowByte w) = unat w mod 256 \<and> unat (highByte w) = unat w div 256"
  by (simp add: unat_lowByte unat_highByte)

lemma build_example:
  "buildRequest count_crc ATTRIBUTE_CURRENT_SCENE 4 OP_CODE_GET 0 fresh_device
     = Some (([2, 222, 23, 2, 0, 0, 0, 4, 0, 145, 1, 0, 1, 12, 0], 15),
             fresh_device\<lparr> messageId := 3 \<rparr>)"
  using buildRequest_frame [of ATTRIBUTE_CURRENT_SCENE 4 count_crc OP_CODE_GET 0 fresh_device]
  by (simp add: ATTRIBUTE_CURRENT_SCENE_def frame_layout_def request_header_def count_crc_def
      fresh_device_def lowByte_def highByte_def OP_CODE_GET_def OP_GROUP_REQUEST_def)

lemma build_overflow:
  "buildRequest crc16 data 65525 opCode reserved s = None"
  by (simp add: buildRequest_def new_array_def store_def)

text \<open>
  Claim C5, as amended. For a selector of \<open>L\<close> bytes with \<open>L + 11\<close> below \<open>65536\<close>
  (\<open>L\<close> at most 65524, so that the \<open>uint16_t\<close> size does not wrap), any op code,
  reserved word and message id, \<open>buildRequest\<close> returns a frame of \<open>L + 11\<close> bytes:
  byte 0 is \<open>0x02\<close>, byte 1 the request tag \<open>0xDE\<close>, byte 2 the op code, bytes 3-4
  the message id low byte first, bytes 5-6 the reserved word high byte first, bytes 7-8
  \<open>L\<close> low byte first, bytes 9 to \<open>9 + L - 1\<close> the selector, and the last two bytes
  the checksum, low byte first, of the \<open>total - 3\<close> bytes that follow the start byte,
  that is of bytes \<open>1\<close> to \<open>total - 3\<close> inclusive (\<open>slice frame 1 (total - 2)\<close>).
  The message id of the handle goes up by one.
\<close>

theorem buildRequest_layout:
  assumes len: "length data = unat len" and fits: "unat len + 11 < 65536"
  shows "(let frame = frame_layout crc16 data len opCode reserved (messageId s);
              total = unat len + 11
          in buildRequest crc16 data len opCode reserved s
               = Some ((frame, len + 11), s\<lparr> messageId := messageId s + 1 \<rparr>)
           \<and> unat (len + 11) = total \<and> length frame = total
           \<and> frame ! 0 = 0x02 \<and> frame ! 1 = 0xDE \<and> frame ! 2 = opCode
           \<and> frame ! 3 = lowByte (messageId s) \<and> frame ! 4 = highByte (messageId s)
           \<and> frame ! 5 = highByte reserved \<and> frame ! 6 = lowByte reserved
           \<and> frame ! 7 = lowByte len \<and> frame ! 8 = highByte len
           \<and> slice frame 9 (9 + unat len) = data
           \<and> frame ! (total - 2) = lowByte (crc16 (slice frame 1 (total - 2)))
           \<and> frame ! (total - 1) = highByte (crc16 (slice frame 1 (total - 2)))
           \<and> shl8_add (frame ! 4) (frame ! 3) = messageId s
           \<and> shl8_add (frame ! 5) (frame ! 6) = reserved
           \<and> shl8_add (frame ! 8) (frame ! 7) = len
           \<and> shl8_add (frame ! (total - 1)) (frame ! (total - 2)) = crc16 (slice frame 1 (total - 2)))"
proof -
  let ?f = "frame_layout crc16 data len opCode reserved (messageId s)"
  let ?t = "unat len + 11"
  have size: "unat (len + 11) = ?t"
    using fits by (simp add: unat_word_ariths)
  have hdr: "?f ! 0 = 0x02" "?f ! 1 = 0xDE" "?f ! 2 = opCode"
    "?f ! 3 = lowByte (messageId s)" "?f ! 4 = highByte (messageId s)"
    "?f ! 5 = highByte reserved" "?f ! 6 = lowByte reserved"
    "?f ! 7 = lowByte len" "?f ! 8 = highByte len"
    by (simp_all add: frame_layout_def request_header_def Let_def OP_GROUP_REQUEST_def)
  have cov: "slice ?f 1 (?t - 2) = drop 1 (request_header len opCode reserved (messageId s) @ data)"
    using frame_layout_covered [of crc16 data len opCode reserved "messageId s"] len by simp
  have i: "?t - 2 = length data + 9" "?t - 1 = length data + 10"
    using len by simp_all
  have crc: "?f ! (?t - 2) = lowByte (crc16 (slice ?f 1 (?t - 2)))"
            "?f ! (?t - 1) = highByte (crc16 (slice ?f 1 (?t - 2)))"
    unfolding cov unfolding i by (rule frame_layout_crc)+
  have dat: "slice ?f 9 (9 + unat len) = data"
    using frame_layout_data [of crc16 data len opCode reserved "messageId s"] len by simp
  show ?thesis
    unfolding Let_def
    using buildRequest_frame [OF len fits, of crc16 opCode reserved s] size hdr dat crc
    by (simp add: length_frame_layout len hi_lo)
qed

text \<open>The theorem of C5 at the selector of the current scene, message id 2, with the
  byte count as checksum: 12 bytes are covered.\<close>

theorem buildRequest_layout_witness:
  "length ATTRIBUTE_CURRENT_SCENE = unat (4 :: u16) \<and> unat (4 :: u16) + 11 < 65536 \<and>
   buildRequest count_crc ATTRIBUTE_CURRENT_SCENE 4 OP_CODE_GET 0 fresh_device
     = Some (([2, 222, 23, 2, 0, 0, 0, 4, 0, 145, 1, 0, 1, 12, 0], 15),
             fresh_device\<lparr> messageId := 3 \<rparr>)"
  using buildRequest_layout [of ATTRIBUTE_CURRENT_SCENE 4 count_crc OP_CODE_GET 0 fresh_device]
  by (simp add: ATTRIBUTE_CURRENT_SCENE_def frame_layout_def request_header_def count_crc_def
      fresh_device_def lowByte_def highByte_def OP_CODE_GET_def OP_GROUP_REQUEST_def Let_def)

text \<open>
  Claim C5 as stated fails in two places. A selector of 65525 bytes has
  \<open>requestSize = 65525 + 11 = 0\<close> in 16 bits: the array has no byte and the first
  store is out of bounds, where the claim promises a frame of 65536 bytes. And the
  checksum does not cover the bytes \<open>[1, total - 3)\<close>: in the 15-byte frame of the
  current-scene request those are 11 bytes, while the stored checksum is that of 12.
\<close>

theorem buildRequest_layout_counterexample:
  "length (replicate 65525 (0 :: byte)) = unat (65525 :: u16) \<and>
   buildRequest count_crc (replicate 65525 0) 65525 OP_CODE_GET 0 fresh_device = None \<and>
   buildRequest count_crc ATTRIBUTE_CURRENT_SCENE 4 OP_CODE_GET 0 fresh_device
     = Some (([2, 222, 23, 2, 0, 0, 0, 4, 0, 145, 1, 0, 1, 12, 0], 15),
             fresh_device\<lparr> messageId := 3 \<rparr>) \<and>
   [2, 222, 23, 2, 0, 0, 0, 4, 0, 145, 1, 0, 1, 12, 0] ! (15 - 2)
     \<noteq> lowByte (count_crc (slice [2, 222, 23, 2, 0, 0, 0, 4, 0, 145, 1, 0, 1, 12, 0] 1 (15 - 3)))"
  by (simp add: build_example build_overflow slice_def count_crc_def lowByte_def)

text \<open>
  Claim C1, as amended. For a selector of \<open>L\<close> bytes with \<open>L + 11\<close> below \<open>65536\<close>,
  any op code, reserved word and message id: decoding the frame that \<open>buildRequest\<close>
  built, with its op-group byte replaced by the confirm tag \<open>0xDF\<close> and nothing else
  changed, gives back exactly the selector. Decoding the unmodified frame gives the
  empty segment, because \<open>parseResponseData\<close> accepts the confirm tag only and a
  request carries \<open>0xDE\<close>.
\<close>

theorem encode_decode:
  assumes len: "length data = unat len" and fits: "unat len + 11 < 65536"
  shows "encode_confirm_decode crc16 data len opCode reserved s = Some (data, len) \<and>
         encode_then_decode crc16 data len opCode reserved s = Some ([], 0)"
  unfolding encode_confirm_decode_def encode_then_decode_def buildRequest_frame [OF len fits]
  by (simp only: Option.bind.simps prod.case parse_confirm [OF len fits] parse_unmodified)

text \<open>The theorem of C1 at the selector of the current scene.\<close>

theorem encode_decode_witness:
  "length ATTRIBUTE_CURRENT_SCENE = unat (4 :: u16) \<and> unat (4 :: u16) + 11 < 65536 \<and>
   encode_confirm_decode count_crc ATTRIBUTE_CURRENT_SCENE 4 OP_CODE_GET 0 fresh_device
     = Some ([0x91, 0x01, 0x00, 0x01], 4)"
  using encode_decode [of ATTRIBUTE_CURRENT_SCENE 4 count_crc OP_CODE_GET 0 fresh_device]
  by (simp add: ATTRIBUTE_CURRENT_SCENE_def)

text \<open>
  Claim C1 as stated fails: the unmodified frame of the current-scene request, a
  selector of 4 bytes, decodes to no data. A selector of 65525 bytes cannot be encoded
  at all.
\<close>

theorem encode_decode_counterexample:
  "length ATTRIBUTE_CURRENT_SCENE = unat (4 :: u16) \<and> 1 \<le> length ATTRIBUTE_CURRENT_SCENE \<and>
   encode_then_decode count_crc ATTRIBUTE_CURRENT_SCENE 4 OP_CODE_GET 0 fresh_device = Some ([], 0) \<and>
   encode_then_decode count_crc ATTRIBUTE_CURRENT_SCENE 4 OP_CODE_GET 0 fresh_device
     \<noteq> Some (ATTRIBUTE_CURRENT_SCENE, 4) \<and>
   length (replicate 65525 (0 :: byte)) = unat (65525 :: u16) \<and>
   encode_confirm_decode count_crc (replicate 65525 0) 65525 OP_CODE_GET 0 fresh_device = None"
proof -
  have a: "length ATTRIBUTE_CURRENT_SCENE = unat (4 :: u16)" "1 \<le> length ATTRIBUTE_CURRENT_SCENE"
    by (simp_all add: ATTRIBUTE_CURRENT_SCENE_def)
  have b: "encode_then_decode count_crc ATTRIBUTE_CURRENT_SCENE 4 OP_CODE_GET 0 fresh_device
           = Some ([], 0)"
    unfolding encode_then_decode_def build_example
    by (simp add: parseResponseData_def andalso_def load_def OP_GROUP_CONFIRM_def)
  have c: "encode_confirm_decode count_crc (replicate 65525 0) 65525 OP_CODE_GET 0 fresh_device = None"
    unfolding encode_confirm_decode_def build_overflow by simp
  show ?thesis
    using a c unfolding b by simp
qed

section \<open>When a response counts as a success\<close>

lemma checkData_False: "checkData response dataSize i False = Some False"
  by (simp add: checkData.simps)

lemma checkData_three:
  assumes "11 < length response"
  shows "checkData response 3 0 True = Some (response ! 10 = 0xFF \<and> response ! 11 = 0xFF)"
proof -
  have a: "load response 10 = Some (response ! 10)" "load response 11 = Some (response ! 11)"
    using assms by (simp_all add: load_def)
  have m: "load RESPONSE_DATA_SUCCESSFUL 0 = Some 0xFF" "load RESPONSE_DATA_SUCCESSFUL 1 = Some 0xFF"
    by (simp_all add: load_def RESPONSE_DATA_SUCCESSFUL_def)
  have two: "checkData response 3 (Suc (Suc 0)) b = Some b" for b
    by (simp add: checkData.simps)
  have one: "checkData response 3 (Suc 0) b = Some (b \<and> response ! 11 = 0xFF)" for b
    using a m two [of "b \<and> response ! 11 = 0xFF"]
    by (subst checkData.simps) (auto simp: checkData_False)
  show ?thesis
    using a m one [of "response ! 10 = 0xFF"]
    by (subst checkData.simps) simp
qed

lemma declared_three: "(uint r8 * 256 + uint r7 = 3) = (shl8_add r8 r7 = 3)"
proof -
  have "(shl8_add r8 r7 = 3) = (unat (shl8_add r8 r7) = 3)"
    by (simp add: word_unat_eq_iff)
  also have "\<dots> = (unat r8 * 256 + unat r7 = 3)"
    by (simp add: unat_shl8_add)
  also have "\<dots> = (int (unat r8 * 256 + unat r7) = 3)"
    by presburger
  finally show ?thesis by simp
qed

lemma responseSuccessful_eq:
  assumes req: "length request = unat reqSize" and res: "length response = unat resSize"
  shows "responseSuccessful request reqSize response resSize =
         Some (11 < reqSize \<and> 11 < resSize
               \<and> request ! 0 = response ! 0
               \<and> response ! 1 = OP_GROUP_CONFIRM
               \<and> request ! 2 = response ! 2
               \<and> request ! 3 = response ! 3
               \<and> request ! 4 = response ! 4
               \<and> shl8_add (response ! 8) (response ! 7) = 3
               \<and> response ! 9 = 0x00
               \<and> response ! 10 = 0xFF \<and> response ! 11 = 0xFF)"
proof (cases "11 < reqSize \<and> 11 < resSize")
  case False
  then show ?thesis by (auto simp: responseSuccessful_def)
next
  case True
  then have lq: "11 < length request" and lr: "11 < length response"
    using req res by (simp_all add: word_less_nat_alt)
  have ld: "load request 0 = Some (request ! 0)" "load request 2 = Some (request ! 2)"
    "load request 3 = Some (request ! 3)" "load request 4 = Some (request ! 4)"
    "load response 0 = Some (response ! 0)" "load response (Suc 0) = Some (response ! Suc 0)"
    "load response 2 = Some (response ! 2)" "load response 3 = Some (response ! 3)"
    "load response 4 = Some (response ! 4)" "load response 7 = Some (response ! 7)"
    "load response 8 = Some (response ! 8)" "load response 9 = Some (response ! 9)"
    using lq lr by (auto simp add: load_def)
  show ?thesis
  proof (cases "shl8_add (response ! 8) (response ! 7) = 3 \<and> response ! 9 = 0")
    case ok: True
    then have three: "uint (response ! 8) * 256 + uint (response ! 7) = 3"
      by (simp add: declared_three)
    show ?thesis
      using True ok
      by (auto simp: responseSuccessful_def ld andalso_def three checkData_three [OF lr])
  next
    case bad: False
    then show ?thesis
      using True
      by (auto simp: responseSuccessful_def ld andalso_def declared_three checkData_False)
  qed
qed


text \<open>
  Claim C2. For a request of \<open>reqSize\<close> bytes and a response of \<open>resSize\<close> bytes,
  \<open>responseSuccessful\<close> returns true exactly when both sizes exceed 11, the start
  bytes agree, response byte 1 is the confirm tag \<open>0xDF\<close>, the op code and both bytes
  of the message id agree, the data length the response declares is 3, response byte 9
  is \<open>0x00\<close> and response bytes 10 and 11 are \<open>0xFF\<close>. So it is false for a
  response of at most 11 bytes; after a true result, putting any other value into one
  of the bytes 9, 10, 11 gives false; the two trailing checksum bytes of a response
  whose size is 11 plus its declared data length do not change the result, and no byte
  from offset 12 on does.
\<close>

theorem responseSuccessful_iff:
  assumes req: "length request = unat reqSize" and res: "length response = unat resSize"
  shows "responseSuccessful request reqSize response resSize =
           Some (11 < reqSize \<and> 11 < resSize
                 \<and> request ! 0 = response ! 0
                 \<and> response ! 1 = OP_GROUP_CONFIRM
                 \<and> request ! 2 = response ! 2
                 \<and> request ! 3 = response ! 3
                 \<and> request ! 4 = response ! 4
                 \<and> shl8_add (response ! 8) (response ! 7) = 3
                 \<and> response ! 9 = 0x00
                 \<and> response ! 10 = 0xFF \<and> response ! 11 = 0xFF)
         \<and> (resSize \<le> 11 \<longrightarrow> responseSuccessful request reqSize response resSize = Some False)
         \<and> (\<forall>k b. responseSuccessful request reqSize response resSize = Some True
                    \<and> k \<in> {9, 10, 11} \<and> b \<noteq> response ! k
                \<longrightarrow> responseSuccessful request reqSize (response[k := b]) resSize = Some False)
         \<and> (\<forall>a b. unat resSize = 11 + unat (shl8_add (response ! 8) (response ! 7))
                \<longrightarrow> responseSuccessful request reqSize
                      (response[unat resSize - 2 := a, unat resSize - 1 := b]) resSize
                    = responseSuccessful request reqSize response resSize)
         \<and> (\<forall>response'. length response' = length response \<and> take 12 response' = take 12 response
                \<longrightarrow> responseSuccessful request reqSize response' resSize
                    = responseSuccessful request reqSize response resSize)"
proof -
  note eq = responseSuccessful_eq [OF req res]
  have short: "resSize \<le> 11 \<longrightarrow> responseSuccessful request reqSize response resSize = Some False"
    unfolding eq by auto
  have flip: "responseSuccessful request reqSize (response[k := b]) resSize = Some False"
    if ok: "responseSuccessful request reqSize response resSize = Some True"
      and k: "k \<in> {9, 10, 11}" and b: "b \<noteq> response ! k" for k b
  proof -
    have lr: "11 < length response"
      using ok res unfolding eq by (simp add: word_less_nat_alt)
    have l': "length (response[k := b]) = unat resSize" using res by simp
    have "(response[k := b]) ! 9 \<noteq> 0x00 \<or> (response[k := b]) ! 10 \<noteq> 0xFF
          \<or> (response[k := b]) ! 11 \<noteq> 0xFF"
      using ok k b lr unfolding eq by auto
    then show ?thesis
      unfolding responseSuccessful_eq [OF req l'] by auto
  qed
  have same: "responseSuccessful request reqSize response' resSize
              = responseSuccessful request reqSize response resSize"
    if l: "length response' = length response" and t: "take 12 response' = take 12 response"
    for response'
  proof (cases "11 < resSize")
    case False
    then show ?thesis
      using l res unfolding eq responseSuccessful_eq [OF req l [unfolded res]] by simp
  next
    case True
    have n: "response' ! i = response ! i" if "i < 12" for i
      using that nth_take [of i 12 response'] nth_take [of i 12 response] t by simp
    show ?thesis
      unfolding eq responseSuccessful_eq [OF req l [unfolded res]]
      by (simp add: n)
  qed
  have trailer: "responseSuccessful request reqSize
                   (response[unat resSize - 2 := a, unat resSize - 1 := b]) resSize
                 = responseSuccessful request reqSize response resSize"
    if wf: "unat resSize = 11 + unat (shl8_add (response ! 8) (response ! 7))" for a b
  proof -
    let ?r = "response[unat resSize - 2 := a, unat resSize - 1 := b]"
    have l': "length ?r = unat resSize" using res by simp
    show ?thesis
    proof (cases "11 < resSize")
      case False
      then show ?thesis unfolding eq responseSuccessful_eq [OF req l'] by simp
    next
      case True
      then have big: "12 \<le> unat resSize" by (simp add: word_less_nat_alt)
      show ?thesis
      proof (cases "shl8_add (response ! 8) (response ! 7) = 3")
        case three: True
        then have "unat resSize = 14" using wf by simp
        then have "?r ! i = response ! i" if "i < 12" for i
          using that by simp
        then show ?thesis
          unfolding eq responseSuccessful_eq [OF req l'] by simp
      next
        case False
        then have "shl8_add (?r ! 8) (?r ! 7) \<noteq> 3"
          using big by simp
        then show ?thesis
          unfolding eq responseSuccessful_eq [OF req l'] using False by simp
      qed
    qed
  qed
  show ?thesis
    using eq short flip same trailer by blast
qed


text \<open>The theorem of C2 at a SET request and its confirmation: the result is true, it
  turns false when byte 10 becomes \<open>0xFE\<close>, stays true when the checksum bytes are
  zeroed or replaced, and is false for a response cut to 11 bytes.\<close>

theorem responseSuccessful_iff_witness:
  "length set_request = unat (17 :: u16) \<and> length set_confirm = unat (14 :: u16)
   \<and> responseSuccessful set_request 17 set_confirm 14 = Some True
   \<and> (10 :: nat) \<in> {9, 10, 11} \<and> (0xFE :: byte) \<noteq> set_confirm ! 10
   \<and> responseSuccessful set_request 17 (set_confirm[10 := 0xFE]) 14 = Some False
   \<and> unat (14 :: u16) = 11 + unat (shl8_add (set_confirm ! 8) (set_confirm ! 7))
   \<and> responseSuccessful set_request 17 (set_confirm[unat (14 :: u16) - 2 := 0, unat (14 :: u16) - 1 := 0]) 14 = Some True
   \<and> length (take 12 set_confirm @ [0x55, 0x66]) = length set_confirm
   \<and> take 12 (take 12 set_confirm @ [0x55, 0x66]) = take 12 set_confirm
   \<and> responseSuccessful set_request 17 (take 12 set_confirm @ [0x55, 0x66]) 14 = Some True
   \<and> length (take 11 set_confirm) = unat (11 :: u16) \<and> (11 :: u16) \<le> 11
   \<and> responseSuccessful set_request 17 (take 11 set_confirm) 11 = Some False"
proof -
  have l: "length set_request = unat (17 :: u16)" "length set_confirm = unat (14 :: u16)"
    "length (take 11 set_confirm) = unat (11 :: u16)"
    by (simp_all add: set_request_def set_confirm_def)
  note t = responseSuccessful_iff [OF l(1) l(2)]
  have ok: "responseSuccessful set_request 17 set_confirm 14 = Some True"
    using t [THEN conjunct1]
    by (simp add: set_request_def set_confirm_def OP_GROUP_CONFIRM_def shl8_add_def)
  have k: "(10 :: nat) \<in> {9, 10, 11}" "(0xFE :: byte) \<noteq> set_confirm ! 10"
    by (simp_all add: set_confirm_def)
  have flip: "responseSuccessful set_request 17 (set_confirm[10 := 0xFE]) 14 = Some False"
    using t [THEN conjunct2, THEN conjunct2, THEN conjunct1, rule_format, of 10 "0xFE"] ok k
    by simp
  have wf: "unat (14 :: u16) = 11 + unat (shl8_add (set_confirm ! 8) (set_confirm ! 7))"
    by (simp add: set_confirm_def shl8_add_def)
  have crc: "responseSuccessful set_request 17
               (set_confirm[unat (14 :: u16) - 2 := 0, unat (14 :: u16) - 1 := 0]) 14 = Some True"
    using t [THEN conjunct2, THEN conjunct2, THEN conjunct2, THEN conjunct1, rule_format, OF wf, of 0 0] ok
    by simp
  have tail: "length (take 12 set_confirm @ [0x55, 0x66]) = length set_confirm"
    "take 12 (take 12 set_confirm @ [0x55, 0x66]) = take 12 set_confirm"
    by (simp_all add: set_confirm_def)
  have "responseSuccessful set_request 17 (take 12 set_confirm @ [0x55, 0x66]) 14
        = responseSuccessful set_request 17 set_confirm 14"
    by (rule t [THEN conjunct2, THEN conjunct2, THEN conjunct2, THEN conjunct2, rule_format,
                OF conjI [OF tail]])
  then have beyond:
    "responseSuccessful set_request 17 (take 12 set_confirm @ [0x55, 0x66]) 14 = Some True"
    using ok by (simp only:)
  have short: "responseSuccessful set_request 17 (take 11 set_confirm) 11 = Some False"
    using responseSuccessful_iff [OF l(1) l(3), THEN conjunct2, THEN conjunct1] by simp
  show ?thesis
    using l ok k flip wf crc tail beyond short by simp
qed

section \<open>The exchange: one write, at most five polls\<close>

lemma valueUpdated_polls: "ch_polls (snd (valueUpdated rc)) = ch_polls rc + 1"
  by (simp add: valueUpdated_def split: list.splits option.splits)

lemma valueUpdated_updates: "ch_updates (snd (valueUpdated rc)) = drop 1 (ch_updates rc)"
  by (simp add: valueUpdated_def split: list.splits option.splits)

lemma awaitResponse_unsent: "awaitResponse i False received rc response = (response, rc)"
  by (simp add: awaitResponse.simps)

lemma awaitResponse_silent:
  assumes "\<forall>u \<in> set (take (5 - i) (ch_updates rc)). u = None"
  shows "fst (awaitResponse i True False rc response) = response
       \<and> ch_polls (snd (awaitResponse i True False rc response)) = ch_polls rc + (5 - i)
       \<and> ch_updates (snd (awaitResponse i True False rc response)) = drop (5 - i) (ch_updates rc)"
  using assms
proof (induction "5 - i" arbitrary: i rc)
  case 0
  then show ?case by (simp add: awaitResponse.simps)
next
  case (Suc n)
  then have i: "i < 5" and n: "n = 5 - (i + 1)" by simp_all
  have d: "5 - i = Suc (5 - (i + 1))" using i by simp
  have no: "fst (valueUpdated rc) = False"
    using Suc.prems d
    by (cases "ch_updates rc") (auto simp: valueUpdated_def split: option.splits)
  obtain rc' where v: "valueUpdated rc = (False, rc')"
    using no by (cases "valueUpdated rc") auto
  have rc': "ch_polls rc' = ch_polls rc + 1" "ch_updates rc' = drop 1 (ch_updates rc)"
    using valueUpdated_polls [of rc] valueUpdated_updates [of rc] v by simp_all
  have "\<forall>u \<in> set (take (5 - (i + 1)) (ch_updates rc')). u = None"
  proof
    fix u assume "u \<in> set (take (5 - (i + 1)) (ch_updates rc'))"
    then have "u \<in> set (drop 1 (take (5 - i) (ch_updates rc)))"
      unfolding rc' d by (simp add: drop_take)
    then show "u = None" using Suc.prems by (meson in_set_dropD)
  qed
  from Suc.hyps(1) [OF n this]
  show ?case
    using i v rc' d by (subst (1 2 3) awaitResponse.simps) (simp add: )
qed


lemma awaitResponse_received:
  assumes "ch_updates rc = pre @ Some v # post" and "i + length pre < 5"
    and "\<forall>u \<in> set pre. quiet u" and "v \<noteq> []"
  shows "fst (awaitResponse i True False rc response) = take 255 v
       \<and> ch_polls (snd (awaitResponse i True False rc response)) = ch_polls rc + length pre + 1
       \<and> ch_updates (snd (awaitResponse i True False rc response)) = post"
  using assms
proof (induction pre arbitrary: i rc response)
  case Nil
  then have i: "i < 5" by simp
  have v: "valueUpdated rc = (True, rc\<lparr> ch_updates := post, ch_value := v, ch_polls := ch_polls rc + 1 \<rparr>)"
    using Nil.prems(1) by (simp add: valueUpdated_def)
  have stop: "awaitResponse j True True rc' r = (r, rc')" for j rc' r
    by (simp add: awaitResponse.simps)
  show ?case
    using i v Nil.prems(4)
    by (subst (1 2 3) awaitResponse.simps) (simp add: readValue_def stop)
next
  case (Cons u pre)
  then have i: "i < 5" and i': "(i + 1) + length pre < 5" by simp_all
  have q: "quiet u" and qs: "\<forall>u \<in> set pre. quiet u" using Cons.prems(3) by simp_all
  show ?case
  proof (cases u)
    case None
    let ?rc = "rc\<lparr> ch_updates := pre @ Some v # post, ch_polls := ch_polls rc + 1 \<rparr>"
    have v: "valueUpdated rc = (False, ?rc)"
      using Cons.prems(1) None by (simp add: valueUpdated_def)
    have "ch_updates ?rc = pre @ Some v # post" by simp
    from Cons.IH [OF this i' qs Cons.prems(4), of response]
    show ?thesis
      using i v by (subst (1 2 3) awaitResponse.simps) simp
  next
    case (Some w)
    then have w: "w = []" using q by (simp add: quiet_def)
    let ?rc = "rc\<lparr> ch_updates := pre @ Some v # post, ch_value := [], ch_polls := ch_polls rc + 1 \<rparr>"
    have v: "valueUpdated rc = (True, ?rc)"
      using Cons.prems(1) Some w by (simp add: valueUpdated_def)
    have "ch_updates ?rc = pre @ Some v # post" by simp
    from Cons.IH [OF this i' qs Cons.prems(4), of "[]"]
    show ?thesis
      using i v by (subst (1 2 3) awaitResponse.simps) (simp add: readValue_def)
  qed
qed

lemma awaitResponse_length:
  "length response \<le> 255 \<Longrightarrow> length (fst (awaitResponse i sent received rc response)) \<le> 255"
proof (induction i sent received rc response rule: awaitResponse.induct)
  case (1 i sent received rc response)
  have r: "length (readValue c 255) \<le> 255" for c by (simp add: readValue_def)
  show ?case
    using 1 r
    by (subst awaitResponse.simps) (auto simp: Let_def split: prod.splits bool.splits)
qed


lemma writeValue_written: "ch_written (snd (writeValue c bytes)) = ch_written c @ [bytes]"
  by (simp add: writeValue_def split: list.splits)

lemma sendRequest_eq:
  assumes "length request = unat len"
  shows "sendRequest request len s =
         Some ((fst (awaitResponse 0 (fst (writeValue (requestChar s) request)) False (responseChar s) []),
                of_nat (length (fst (awaitResponse 0 (fst (writeValue (requestChar s) request)) False
                                       (responseChar s) [])))),
               s\<lparr> requestChar := snd (writeValue (requestChar s) request),
                  responseChar := snd (awaitResponse 0 (fst (writeValue (requestChar s) request)) False
                                         (responseChar s) []) \<rparr>)"
  using assms by (simp add: sendRequest_def memcpy_from_def split: prod.splits)

text \<open>
  Claim C4. For a request frame of \<open>length\<close> bytes, \<open>sendRequest\<close> returns, having
  passed the frame to \<open>writeValue\<close> once. If the write fails, the response is empty
  (size 0) and \<open>valueUpdated\<close> is not polled. If the write succeeds and the first
  five polls see no update, the response is empty (size 0) and \<open>valueUpdated\<close> was
  polled exactly 5 times. If the write succeeds and a poll among the first five sees an
  update to a value that is not empty, the polls before it being quiet, polling stops
  with that poll and the response is the bytes \<open>readValue\<close> delivers: the value, cut to
  the 255 bytes of the buffer.
\<close>

theorem sendRequest_polling:
  assumes len: "length request = unat len"
  shows "\<exists>response responseSize s'.
           sendRequest request len s = Some ((response, responseSize), s')
         \<and> unat responseSize = length response
         \<and> ch_written (requestChar s') = ch_written (requestChar s) @ [request]
         \<and> (\<not> fst (writeValue (requestChar s) request)
              \<longrightarrow> response = [] \<and> responseSize = 0
                  \<and> ch_polls (responseChar s') = ch_polls (responseChar s))
         \<and> (fst (writeValue (requestChar s) request)
              \<and> (\<forall>u \<in> set (take 5 (ch_updates (responseChar s))). u = None)
              \<longrightarrow> response = [] \<and> responseSize = 0
                  \<and> ch_polls (responseChar s') = ch_polls (responseChar s) + 5)
         \<and> (\<forall>pre v post.
                fst (writeValue (requestChar s) request)
              \<and> ch_updates (responseChar s) = pre @ Some v # post \<and> length pre < 5
              \<and> (\<forall>u \<in> set pre. quiet u) \<and> v \<noteq> []
              \<longrightarrow> response = take 255 v \<and> response \<noteq> []
                  \<and> ch_polls (responseChar s') = ch_polls (responseChar s) + length pre + 1)"
proof -
  let ?sent = "fst (writeValue (requestChar s) request)"
  let ?a = "awaitResponse 0 ?sent False (responseChar s) []"
  let ?s' = "s\<lparr> requestChar := snd (writeValue (requestChar s) request), responseChar := snd ?a \<rparr>"
  have run: "sendRequest request len s = Some ((fst ?a, of_nat (length (fst ?a))), ?s')"
    by (rule sendRequest_eq [OF len])
  have "length (fst ?a) \<le> 255"
    by (rule awaitResponse_length) simp
  then have size: "unat (of_nat (length (fst ?a)) :: u16) = length (fst ?a)"
    by (simp add: unat_of_nat)
  have written: "ch_written (requestChar ?s') = ch_written (requestChar s) @ [request]"
    by (simp add: writeValue_written)
  have unsent: "fst ?a = [] \<and> (of_nat (length (fst ?a)) :: u16) = 0
                \<and> ch_polls (responseChar ?s') = ch_polls (responseChar s)"
    if "\<not> ?sent"
    using that by (simp add: awaitResponse_unsent)
  have silent: "fst ?a = [] \<and> (of_nat (length (fst ?a)) :: u16) = 0
                \<and> ch_polls (responseChar ?s') = ch_polls (responseChar s) + 5"
    if "?sent" and "\<forall>u \<in> set (take 5 (ch_updates (responseChar s))). u = None"
    using that awaitResponse_silent [of 0 "responseChar s" "[]"] by simp
  have received: "fst ?a = take 255 v \<and> fst ?a \<noteq> []
                  \<and> ch_polls (responseChar ?s') = ch_polls (responseChar s) + length pre + 1"
    if "?sent" and "ch_updates (responseChar s) = pre @ Some v # post" and "length pre < 5"
      and "\<forall>u \<in> set pre. quiet u" and "v \<noteq> []" for pre v post
    using that awaitResponse_received [of "responseChar s" pre v post 0 "[]"] by simp
  show ?thesis
    using run size written unsent silent received by blast
qed


text \<open>The theorem of C4 on three handles: one whose write fails (no poll), one that
  stays silent for five polls (five polls, although the sixth would have answered), and
  one that answers at the third poll (three polls, the 14 bytes of the answer).\<close>

theorem sendRequest_polling_witness:
  "length set_request = unat (17 :: u16)
   \<and> \<not> fst (writeValue (requestChar fresh_device) set_request)
   \<and> map_option fst (sendRequest set_request 17 fresh_device) = Some ([], 0)
   \<and> map_option (\<lambda>r. ch_polls (responseChar (snd r))) (sendRequest set_request 17 fresh_device) = Some 0
   \<and> fst (writeValue (requestChar silent_session) set_request)
   \<and> take 5 (ch_updates (responseChar silent_session)) = [None, None, None, None, None]
   \<and> map_option fst (sendRequest set_request 17 silent_session) = Some ([], 0)
   \<and> map_option (\<lambda>r. ch_polls (responseChar (snd r))) (sendRequest set_request 17 silent_session) = Some 5
   \<and> fst (writeValue (requestChar answering_session) set_request)
   \<and> ch_updates (responseChar answering_session) = [None, Some []] @ Some set_confirm # []
   \<and> map_option fst (sendRequest set_request 17 answering_session) = Some (set_confirm, 14)
   \<and> map_option (\<lambda>r. ch_polls (responseChar (snd r))) (sendRequest set_request 17 answering_session) = Some 3"
proof -
  have l: "length set_request = unat (17 :: u16)" by (simp add: set_request_def)
  have w0: "\<not> fst (writeValue (requestChar fresh_device) set_request)"
    by (simp add: fresh_device_def unresolved_def writeValue_def)
  have p0: "ch_polls (responseChar fresh_device) = 0"
    by (simp add: fresh_device_def unresolved_def)
  have w1: "fst (writeValue (requestChar silent_session) set_request)"
    by (simp add: silent_session_def writable_def writeValue_def)
  have u1: "take 5 (ch_updates (responseChar silent_session)) = [None, None, None, None, None]"
    and p1: "ch_polls (responseChar silent_session) = 0"
    by (simp_all add: silent_session_def notifying_def unresolved_def)
  have w2: "fst (writeValue (requestChar answering_session) set_request)"
    by (simp add: answering_session_def writable_def writeValue_def)
  have u2: "ch_updates (responseChar answering_session) = [None, Some []] @ Some set_confirm # []"
    and p2: "ch_polls (responseChar answering_session) = 0"
    by (simp_all add: answering_session_def notifying_def unresolved_def)
  have q2: "\<forall>u \<in> set [None, Some ([] :: byte list)]. quiet u" by (simp add: quiet_def)
  have v2: "set_confirm \<noteq> []" "take 255 set_confirm = set_confirm" "length set_confirm = 14"
    by (simp_all add: set_confirm_def)
  obtain r0 n0 s0 where a0: "sendRequest set_request 17 fresh_device = Some ((r0, n0), s0)"
    and b0: "r0 = [] \<and> n0 = 0 \<and> ch_polls (responseChar s0) = ch_polls (responseChar fresh_device)"
    using sendRequest_polling [OF l, of fresh_device] w0 by blast
  obtain r1 n1 s1 where a1: "sendRequest set_request 17 silent_session = Some ((r1, n1), s1)"
    and b1: "r1 = [] \<and> n1 = 0 \<and> ch_polls (responseChar s1) = ch_polls (responseChar silent_session) + 5"
    using sendRequest_polling [OF l, of silent_session] w1 u1 by auto
  obtain r2 n2 s2 where a2: "sendRequest set_request 17 answering_session = Some ((r2, n2), s2)"
    and c2: "unat n2 = length r2"
    and all2: "\<forall>pre v post.
                fst (writeValue (requestChar answering_session) set_request)
              \<and> ch_updates (responseChar answering_session) = pre @ Some v # post \<and> length pre < 5
              \<and> (\<forall>u \<in> set pre. quiet u) \<and> v \<noteq> []
              \<longrightarrow> r2 = take 255 v \<and> r2 \<noteq> []
                  \<and> ch_polls (responseChar s2) = ch_polls (responseChar answering_session) + length pre + 1"
    using sendRequest_polling [OF l, of answering_session] by blast
  have b2: "r2 = take 255 set_confirm
             \<and> ch_polls (responseChar s2) = ch_polls (responseChar answering_session) + 2 + 1"
    using all2 [rule_format, of "[None, Some []]" set_confirm "[]"] w2 u2 q2 v2(1) by simp
  have n2: "n2 = 14" using c2 b2 v2 by (simp add: word_unat_eq_iff)
  show ?thesis
    using l w0 w1 u1 w2 u2 a0 b0 p0 a1 b1 p1 a2 b2 p2 n2 v2 by simp
qed

section \<open>Setting an attribute\<close>

lemma sendRequest_sizes:
  assumes "length request = unat len" and "sendRequest request len s = Some ((res, resSize), s')"
  shows "length res = unat resSize"
proof -
  let ?a = "awaitResponse 0 (fst (writeValue (requestChar s) request)) False (responseChar s) []"
  have "length (fst ?a) \<le> 255"
    by (rule awaitResponse_length) simp
  then have "length (fst ?a) mod 65536 = length (fst ?a)" by simp
  then show ?thesis
    using assms(2) unfolding sendRequest_eq [OF assms(1)]
    by (auto simp: unat_of_nat)
qed

lemma sendRequest_messageId:
  assumes "sendRequest request len s = Some (r, s')"
  shows "messageId s' = messageId s"
proof -
  obtain y where y: "memcpy_from request 0 (unat len) = Some y"
    using assms by (cases "memcpy_from request 0 (unat len)") (simp_all add: sendRequest_def)
  obtain sent qc where w: "writeValue (requestChar s) y = (sent, qc)"
    by (cases "writeValue (requestChar s) y")
  obtain resp rc where a: "awaitResponse 0 sent False (responseChar s) [] = (resp, rc)"
    by (cases "awaitResponse 0 sent False (responseChar s) []")
  show ?thesis
    using assms by (auto simp: sendRequest_def y w a)
qed

lemma frame_size:
  assumes "length data = unat len" and "unat len + 11 < 65536"
  shows "length (frame_layout crc16 data len opCode reserved mid) = unat (len + 11)"
  using assms by (simp add: length_frame_layout unat_word_ariths)

text \<open>
  Claim C7, as amended. When \<open>setData\<close> is called with verification disabled
  (\<open>doVerification = false\<close>), for a selector of \<open>L\<close> bytes with \<open>L + 11\<close> below
  \<open>65536\<close>, it returns true in every case: whatever the response holds, when no
  response arrives, and also when the write of the request itself fails. Its result is
  \<open>verified || !doVerification\<close>, and nothing of the exchange enters the second
  operand.
\<close>

theorem setData_unverified:
  assumes len: "length data = unat len" and fits: "unat len + 11 < 65536"
  shows "map_option fst (setData crc16 data len False s) = Some True"
  unfolding setData_def buildRequest_frame [OF len fits]
  by (simp add: sendRequest_eq [OF frame_size [OF len fits]])

text \<open>The theorem of C7 on a handle whose write succeeds and that is answered.\<close>

theorem setData_unverified_witness:
  "length ATTRIBUTE_SCENE = unat (9 :: u16) \<and> unat (9 :: u16) + 11 < 65536
   \<and> map_option fst (setData count_crc ATTRIBUTE_SCENE 9 False answering_session) = Some True"
  using setData_unverified [of ATTRIBUTE_SCENE 9 count_crc answering_session]
  by (simp add: ATTRIBUTE_SCENE_def)

text \<open>
  Claim C7 as stated fails: on a handle whose request characteristic is not resolved,
  \<open>writeValue\<close> returns false for the frame that was built, and \<open>setData\<close> without
  verification still returns true.
\<close>

theorem setData_unverified_counterexample:
  "\<not> fst (writeValue (requestChar (fresh_device\<lparr> messageId := 3 \<rparr>))
            (frame_layout count_crc ATTRIBUTE_SCENE 9 OP_CODE_SET 0x0800 2))
   \<and> buildRequest count_crc ATTRIBUTE_SCENE 9 OP_CODE_SET 0x0800 fresh_device
       = Some ((frame_layout count_crc ATTRIBUTE_SCENE 9 OP_CODE_SET 0x0800 2, 20),
               fresh_device\<lparr> messageId := 3 \<rparr>)
   \<and> map_option fst (setData count_crc ATTRIBUTE_SCENE 9 False fresh_device) = Some True"
proof -
  have l: "length ATTRIBUTE_SCENE = unat (9 :: u16)" "unat (9 :: u16) + 11 < 65536"
    by (simp_all add: ATTRIBUTE_SCENE_def)
  have w: "\<not> fst (writeValue (requestChar (fresh_device\<lparr> messageId := 3 \<rparr>)) bytes)" for bytes
    by (simp add: fresh_device_def unresolved_def writeValue_def)
  have b: "buildRequest count_crc ATTRIBUTE_SCENE 9 OP_CODE_SET 0x0800 fresh_device
       = Some ((frame_layout count_crc ATTRIBUTE_SCENE 9 OP_CODE_SET 0x0800 2, 20),
               fresh_device\<lparr> messageId := 3 \<rparr>)"
    using buildRequest_frame [OF l, of count_crc OP_CODE_SET "0x0800" fresh_device]
    by (simp add: fresh_device_def)
  have f: "length (frame_layout count_crc ATTRIBUTE_SCENE 9 OP_CODE_SET 0x0800 2) = unat (20 :: u16)"
    using frame_size [OF l, of count_crc OP_CODE_SET "0x0800" 2] by simp
  have "map_option fst (setData count_crc ATTRIBUTE_SCENE 9 False fresh_device) = Some True"
    unfolding setData_def b by (simp add: sendRequest_eq [OF f])
  then show ?thesis using w b by simp
qed

section \<open>Reading the current scene\<close>

lemma parseResponseData_length:
  assumes "parseResponseData res resSize = Some (body, bodySize)"
  shows "length body = unat bodySize"
  using assms
  by (auto simp: parseResponseData_def andalso_def memcpy_from_def Option.bind_eq_Some_conv
      Let_def split: if_splits)

lemma current_scene_request:
  "buildRequest crc16 ATTRIBUTE_CURRENT_SCENE 4 OP_CODE_GET 0 s =
     Some ((frame_layout crc16 ATTRIBUTE_CURRENT_SCENE 4 OP_CODE_GET 0 (messageId s), 15),
           s\<lparr> messageId := messageId s + 1 \<rparr>)"
  using buildRequest_frame [of ATTRIBUTE_CURRENT_SCENE 4 crc16 OP_CODE_GET 0 s]
  by (simp add: ATTRIBUTE_CURRENT_SCENE_def)

lemma getCurrentScene_eq:
  assumes send: "sendRequest (frame_layout crc16 ATTRIBUTE_CURRENT_SCENE 4 OP_CODE_GET 0 (messageId s)) 15
                   (s\<lparr> messageId := messageId s + 1 \<rparr>) = Some ((res, resSize), s')"
    and parse: "parseResponseData res resSize = Some (body, bodySize)"
  shows "getCurrentScene crc16 s =
           do { b7 \<leftarrow> load body 7; b6 \<leftarrow> load body 6; Some (shl8_add b7 b6, s') }"
proof -
  have n: "(of_nat (length ATTRIBUTE_CURRENT_SCENE) :: u16) = 4"
    by (simp add: ATTRIBUTE_CURRENT_SCENE_def)
  show ?thesis
    unfolding getCurrentScene_def Let_def n getData_def current_scene_request
    by (simp add: send parse)
qed

lemma current_scene_frame_length:
  "length (frame_layout crc16 ATTRIBUTE_CURRENT_SCENE 4 OP_CODE_GET 0 mid) = unat (15 :: u16)"
  by (simp add: length_frame_layout ATTRIBUTE_CURRENT_SCENE_def)

lemma send_silent:
  assumes "length frame = unat len"
  shows "map_option fst (sendRequest frame len (silent_session\<lparr> messageId := m \<rparr>)) = Some ([], 0)"
  unfolding sendRequest_eq [OF assms]
  by (simp add: silent_session_def writable_def notifying_def unresolved_def writeValue_def
      valueUpdated_def awaitResponse.simps)

lemma send_scene7:
  assumes "length frame = unat len"
  shows "map_option fst (sendRequest frame len (scene7_session\<lparr> messageId := m \<rparr>))
         = Some (scene_response7, 18)"
  unfolding sendRequest_eq [OF assms]
  by (simp add: scene7_session_def writable_def notifying_def unresolved_def writeValue_def
      valueUpdated_def readValue_def awaitResponse.simps scene_response7_def)

lemma send_scene8:
  assumes "length frame = unat len"
  shows "map_option fst (sendRequest frame len (scene8_session\<lparr> messageId := m \<rparr>))
         = Some (scene_response8, 19)"
  unfolding sendRequest_eq [OF assms]
  by (simp add: scene8_session_def writable_def notifying_def unresolved_def writeValue_def
      valueUpdated_def readValue_def awaitResponse.simps scene_response8_def)

lemma parse_scene7:
  "parseResponseData scene_response7 18 = Some ([0x91, 0x01, 0x00, 0x01, 0x04, 0x02, 0x00], 7)"
  by (simp add: parseResponseData_def andalso_def load_def memcpy_from_def scene_response7_def
      OP_GROUP_CONFIRM_def shl8_add_def)

lemma parse_scene8:
  "parseResponseData scene_response8 19 = Some ([0x00, 0x91, 0x01, 0x00, 0x01, 0x04, 0x02, 0x00], 8)"
  by (simp add: parseResponseData_def andalso_def load_def memcpy_from_def scene_response8_def
      OP_GROUP_CONFIRM_def shl8_add_def)

lemma parse_nothing: "parseResponseData [] 0 = Some ([], 0)"
  by (simp add: parseResponseData_def andalso_def)

text \<open>
  Claim C10. \<open>getCurrentScene\<close> reads \<open>body[7]\<close> and \<open>body[6]\<close> of the decoded
  data segment without looking at its size. So whenever the exchange of the
  current-scene request ends with a response that \<open>parseResponseData\<close> decodes to a
  segment of fewer than 8 bytes - the empty segment of a response that is not
  structurally valid, or of no response at all, included - the read of \<open>body[7]\<close> is
  out of bounds, and in this embedding \<open>getCurrentScene\<close> is \<open>None\<close>.
\<close>

theorem getCurrentScene_out_of_bounds:
  assumes send: "sendRequest (frame_layout crc16 ATTRIBUTE_CURRENT_SCENE 4 OP_CODE_GET 0 (messageId s)) 15
                   (s\<lparr> messageId := messageId s + 1 \<rparr>) = Some ((res, resSize), s')"
    and parse: "parseResponseData res resSize = Some (body, bodySize)"
    and short: "unat bodySize < 8"
  shows "length body = unat bodySize \<and> load body 7 = None \<and> getCurrentScene crc16 s = None"
proof -
  have l: "length body = unat bodySize" by (rule parseResponseData_length [OF parse])
  then have "load body 7 = None" using short by (simp add: load_def)
  then show ?thesis
    using l unfolding getCurrentScene_eq [OF send parse] by simp
qed

text \<open>The theorem of C10 on a handle that is never answered (the segment is empty) and on
  one answered with a valid response whose segment has 7 bytes.\<close>

theorem getCurrentScene_out_of_bounds_witness:
  "map_option fst
     (sendRequest (frame_layout count_crc ATTRIBUTE_CURRENT_SCENE 4 OP_CODE_GET 0 (messageId silent_session))
        15 (silent_session\<lparr> messageId := messageId silent_session + 1 \<rparr>))
     = Some ([], 0)
   \<and> parseResponseData [] 0 = Some ([], 0) \<and> unat (0 :: u16) < 8
   \<and> getCurrentScene count_crc silent_session = None
   \<and> map_option fst
        (sendRequest (frame_layout count_crc ATTRIBUTE_CURRENT_SCENE 4 OP_CODE_GET 0 (messageId scene7_session))
           15 (scene7_session\<lparr> messageId := messageId scene7_session + 1 \<rparr>))
      = Some (scene_response7, 18)
   \<and> parseResponseData scene_response7 18 = Some ([0x91, 0x01, 0x00, 0x01, 0x04, 0x02, 0x00], 7)
   \<and> unat (7 :: u16) < 8
   \<and> getCurrentScene count_crc scene7_session = None"
proof -
  let ?f0 = "frame_layout count_crc ATTRIBUTE_CURRENT_SCENE 4 OP_CODE_GET 0 (messageId silent_session)"
  let ?s0 = "silent_session\<lparr> messageId := messageId silent_session + 1 \<rparr>"
  let ?f7 = "frame_layout count_crc ATTRIBUTE_CURRENT_SCENE 4 OP_CODE_GET 0 (messageId scene7_session)"
  let ?s7 = "scene7_session\<lparr> messageId := messageId scene7_session + 1 \<rparr>"
  have m0: "map_option fst (sendRequest ?f0 15 ?s0) = Some ([], 0)"
    by (rule send_silent [OF current_scene_frame_length])
  then obtain s0 where send0: "sendRequest ?f0 15 ?s0 = Some (([], 0), s0)"
    by auto
  have m7: "map_option fst (sendRequest ?f7 15 ?s7) = Some (scene_response7, 18)"
    by (rule send_scene7 [OF current_scene_frame_length])
  then obtain s7 where send7: "sendRequest ?f7 15 ?s7 = Some ((scene_response7, 18), s7)"
    by auto
  have "getCurrentScene count_crc silent_session = None"
    using getCurrentScene_out_of_bounds [OF send0 parse_nothing] by simp
  moreover have "getCurrentScene count_crc scene7_session = None"
    using getCurrentScene_out_of_bounds [OF send7 parse_scene7] by simp
  ultimately show ?thesis
    using m0 m7 parse_nothing parse_scene7 by simp
qed

text \<open>
  Claim C9, as amended. When \<open>getCurrentScene\<close> receives a response that
  \<open>parseResponseData\<close> decodes to a data segment of at least 8 bytes, it returns the
  16-bit value whose low byte is the segment's byte 6 and whose high byte is its byte 7.
  For the 8-byte segment \<open>00 91 01 00 01 04 02 00\<close> - the 7 bytes of the claim after
  the leading \<open>00\<close> that every response data starts with - the scene id is 2.
\<close>

theorem getCurrentScene_decodes:
  assumes send: "sendRequest (frame_layout crc16 ATTRIBUTE_CURRENT_SCENE 4 OP_CODE_GET 0 (messageId s)) 15
                   (s\<lparr> messageId := messageId s + 1 \<rparr>) = Some ((res, resSize), s')"
    and parse: "parseResponseData res resSize = Some (body, bodySize)"
    and long: "8 \<le> unat bodySize"
  shows "getCurrentScene crc16 s = Some (shl8_add (body ! 7) (body ! 6), s')
       \<and> unat (shl8_add (body ! 7) (body ! 6)) = unat (body ! 6) + 256 * unat (body ! 7)
       \<and> (body = [0x00, 0x91, 0x01, 0x00, 0x01, 0x04, 0x02, 0x00]
            \<longrightarrow> getCurrentScene crc16 s = Some (2, s'))"
proof -
  have l: "length body = unat bodySize" by (rule parseResponseData_length [OF parse])
  then have ld: "load body 7 = Some (body ! 7)" "load body 6 = Some (body ! 6)"
    using long by (simp_all add: load_def)
  have g: "getCurrentScene crc16 s = Some (shl8_add (body ! 7) (body ! 6), s')"
    unfolding getCurrentScene_eq [OF send parse] by (simp add: ld)
  have two: "shl8_add (0 :: byte) 2 = 2" by (simp add: shl8_add_def)
  show ?thesis
    using g two by (auto simp: unat_shl8_add)
qed


text \<open>The theorem of C9 on a handle answered with the 8-byte segment: the scene is 2.\<close>

theorem getCurrentScene_decodes_witness:
  "parseResponseData scene_response8 19 = Some ([0x00, 0x91, 0x01, 0x00, 0x01, 0x04, 0x02, 0x00], 8)
   \<and> 8 \<le> unat (8 :: u16)
   \<and> map_option fst
        (sendRequest (frame_layout count_crc ATTRIBUTE_CURRENT_SCENE 4 OP_CODE_GET 0 (messageId scene8_session))
           15 (scene8_session\<lparr> messageId := messageId scene8_session + 1 \<rparr>))
      = Some (scene_response8, 19)
   \<and> map_option fst (getCurrentScene count_crc scene8_session) = Some 2"
proof -
  let ?f = "frame_layout count_crc ATTRIBUTE_CURRENT_SCENE 4 OP_CODE_GET 0 (messageId scene8_session)"
  let ?s = "scene8_session\<lparr> messageId := messageId scene8_session + 1 \<rparr>"
  have m: "map_option fst (sendRequest ?f 15 ?s) = Some (scene_response8, 19)"
    by (rule send_scene8 [OF current_scene_frame_length])
  then obtain s' where send: "sendRequest ?f 15 ?s = Some ((scene_response8, 19), s')"
    by auto
  have "getCurrentScene count_crc scene8_session = Some (2, s')"
    using getCurrentScene_decodes [OF send parse_scene8] by (simp add: shl8_add_def)
  then show ?thesis
    using m parse_scene8 by simp
qed

text \<open>
  Claim C9 as stated fails: answered with the 7-byte segment \<open>91 01 00 01 04 02 00\<close>,
  whose bytes have the offsets 0 to 6, \<open>getCurrentScene\<close> reads offset 7 out of bounds
  and does not return 2.
\<close>

theorem getCurrentScene_decodes_counterexample:
  "parseResponseData scene_response7 18 = Some ([0x91, 0x01, 0x00, 0x01, 0x04, 0x02, 0x00], 7)
   \<and> map_option fst
        (sendRequest (frame_layout count_crc ATTRIBUTE_CURRENT_SCENE 4 OP_CODE_GET 0 (messageId scene7_session))
           15 (scene7_session\<lparr> messageId := messageId scene7_session + 1 \<rparr>))
      = Some (scene_response7, 18)
   \<and> load [0x91, 0x01, 0x00, 0x01, 0x04, 0x02, 0x00] 7 = None
   \<and> getCurrentScene count_crc scene7_session = None
   \<and> map_option fst (getCurrentScene count_crc scene7_session) \<noteq> Some 2"
proof -
  let ?f = "frame_layout count_crc ATTRIBUTE_CURRENT_SCENE 4 OP_CODE_GET 0 (messageId scene7_session)"
  let ?s = "scene7_session\<lparr> messageId := messageId scene7_session + 1 \<rparr>"
  have m: "map_option fst (sendRequest ?f 15 ?s) = Some (scene_response7, 18)"
    by (rule send_scene7 [OF current_scene_frame_length])
  then obtain s' where send: "sendRequest ?f 15 ?s = Some ((scene_response7, 18), s')"
    by auto
  have l: "load [0x91, 0x01, 0x00, 0x01, 0x04, 0x02, 0x00] 7 = None"
    by (simp add: load_def)
  have "getCurrentScene count_crc scene7_session = None"
    unfolding getCurrentScene_eq [OF send parse_scene7] l by simp
  then show ?thesis
    using m parse_scene7 l by simp
qed

section \<open>Resolving the characteristics\<close>

text \<open>
  Claim C8. \<open>connectToCharacteristics\<close> returns true exactly when all three checks
  succeed: the request characteristic is found and writable, and each of the two
  response characteristics is found, can be subscribed and its \<open>subscribe()\<close>
  succeeds. Then the stored handles are the request characteristic and the second
  response characteristic. Whenever one of the three checks fails, both stored handles
  are the unresolved handle \<open>BLECharacteristic()\<close>: none is kept. The message id is
  not touched.
\<close>

theorem connectToCharacteristics_all_or_nothing:
  "(let rq = characteristic peripheral REQUEST_CHARACTERISTIC;
        r1 = characteristic peripheral RESPONSE_CHARACTERISTIC_1;
        r2 = characteristic peripheral RESPONSE_CHARACTERISTIC_2;
        ok = ((ch_valid rq \<and> ch_canWrite rq)
              \<and> (ch_valid r1 \<and> ch_canSubscribe r1 \<and> ch_subscribeResult r1)
              \<and> (ch_valid r2 \<and> ch_canSubscribe r2 \<and> ch_subscribeResult r2));
        result = connectToCharacteristics peripheral s
    in fst result = ok
     \<and> (ok \<longrightarrow> requestChar (snd result) = rq
              \<and> responseChar (snd result) = r2\<lparr> ch_subscribed := True \<rparr>)
     \<and> (\<not> ok \<longrightarrow> requestChar (snd result) = unresolved
                \<and> responseChar (snd result) = unresolved)
     \<and> messageId (snd result) = messageId s \<and> device (snd result) = device s
     \<and> address (snd result) = address s)"
  by (auto simp: connectToCharacteristics_def trySubscribe_def subscribe_def Let_def
      split: prod.splits)


text \<open>The theorem of C8 on a peripheral with all three characteristics (the handles are
  stored) and on one that lacks the first response characteristic (both handles of a
  session that had them are reset).\<close>

theorem connectToCharacteristics_all_or_nothing_witness:
  "fst (connectToCharacteristics (mobius_peripheral\<lparr> dev_attributes := mobius_gatt \<rparr>) fresh_device)
   \<and> requestChar (snd (connectToCharacteristics (mobius_peripheral\<lparr> dev_attributes := mobius_gatt \<rparr>)
                         fresh_device)) = writable
   \<and> ch_valid (responseChar (snd (connectToCharacteristics
                         (mobius_peripheral\<lparr> dev_attributes := mobius_gatt \<rparr>) fresh_device)))
   \<and> \<not> ch_valid (characteristic (mobius_peripheral\<lparr> dev_attributes := no_notify_gatt \<rparr>)
                     RESPONSE_CHARACTERISTIC_1)
   \<and> \<not> fst (connectToCharacteristics (mobius_peripheral\<lparr> dev_attributes := no_notify_gatt \<rparr>)
              silent_session)
   \<and> requestChar (snd (connectToCharacteristics (mobius_peripheral\<lparr> dev_attributes := no_notify_gatt \<rparr>)
                         silent_session)) = unresolved
   \<and> responseChar (snd (connectToCharacteristics (mobius_peripheral\<lparr> dev_attributes := no_notify_gatt \<rparr>)
                         silent_session)) = unresolved"
  using connectToCharacteristics_all_or_nothing
          [of "mobius_peripheral\<lparr> dev_attributes := mobius_gatt \<rparr>" fresh_device]
        connectToCharacteristics_all_or_nothing
          [of "mobius_peripheral\<lparr> dev_attributes := no_notify_gatt \<rparr>" silent_session]
  by (simp add: Let_def characteristic_def mobius_peripheral_def mobius_gatt_def no_notify_gatt_def
      REQUEST_CHARACTERISTIC_def RESPONSE_CHARACTERISTIC_1_def RESPONSE_CHARACTERISTIC_2_def
      writable_def notifying_def unresolved_def)

section \<open>Connecting to a peripheral\<close>

lemma connectToCharacteristics_messageId:
  "messageId (snd (connectToCharacteristics p s)) = messageId s"
  by (simp add: connectToCharacteristics_def Let_def split: prod.splits)

lemma discoverService_connects:
  "dev_connectCalls (snd (discoverService p u)) = dev_connectCalls p"
  "dev_connectResults (snd (discoverService p u)) = dev_connectResults p"
  by (simp_all add: discoverService_def split: list.splits option.splits)

lemma discoverLoop_keeps:
  "dev_connectCalls (fst (snd (discoverLoop j cc p s))) = dev_connectCalls p
   \<and> dev_connectResults (fst (snd (discoverLoop j cc p s))) = dev_connectResults p
   \<and> messageId (snd (snd (discoverLoop j cc p s))) = messageId s"
proof (induction j cc p s rule: discoverLoop.induct)
  case (1 j cc p s)
  show ?case
  proof (cases "\<not> cc \<and> j < 3")
    case False
    then show ?thesis by (subst (1 2 3) discoverLoop.simps) auto
  next
    case True
    obtain d p' where d: "discoverService p GENERAL_SERVICE = (d, p')"
      by (cases "discoverService p GENERAL_SERVICE")
    have p': "dev_connectCalls p' = dev_connectCalls p" "dev_connectResults p' = dev_connectResults p"
      using discoverService_connects [of p GENERAL_SERVICE] d by simp_all
    show ?thesis
    proof (cases d)
      case found: True
      obtain c s' where c: "connectToCharacteristics p' s = (c, s')"
        by (cases "connectToCharacteristics p' s")
      have s': "messageId s' = messageId s"
        using connectToCharacteristics_messageId [of p' s] c by simp
      have dT: "d = True" using found by simp
      from "1.IH"(1) [OF True d [symmetric] dT c [symmetric]]
      show ?thesis
        using True d found c p' s' by (subst (1 2 3) discoverLoop.simps) simp
    next
      case none: False
      have dF: "d = False" using none by simp
      from "1.IH"(2) [OF True d [symmetric] dF]
      show ?thesis
        using True d none p' by (subst (1 2 3) discoverLoop.simps) simp
    qed
  qed
qed


lemma connectLoop_connected: "connectLoop i True cc p s = (cc, p, s)"
  by (simp add: connectLoop.simps)

lemma connectLoop_exhausted: "2 \<le> i \<Longrightarrow> connectLoop i hc cc p s = (cc, p, s)"
  by (simp add: connectLoop.simps)

lemma dev_connect_calls: "dev_connectCalls (snd (dev_connect p)) = dev_connectCalls p + 1"
  by (simp add: dev_connect_def split: list.splits)

lemma connectLoop_last:
  "connectLoop (Suc 0) False False p1 s =
     (case dev_connect p1 of
        (True, p2) \<Rightarrow>
          (case discoverLoop 0 False p2 s of
             (cc, p3, s3) \<Rightarrow> (cc, if cc then p3 else dev_disconnect p3, s3))
      | (False, p2) \<Rightarrow> (False, p2, s))"
  by (subst connectLoop.simps)
     (simp add: connectLoop_connected connectLoop_exhausted split: prod.splits bool.splits)

lemma connectTo_peripheral_first:
  assumes "dev_connect p = (True, p1)" and "discoverLoop 0 False p1 s = (cc, p2, s2)"
  shows "connectTo_peripheral p s = (cc, if cc then p2 else dev_disconnect p2, s2)"
  unfolding connectTo_peripheral_def
  by (subst connectLoop.simps) (simp add: assms connectLoop_connected)

lemma connectTo_peripheral_second:
  assumes "dev_connect p = (False, p1)" and "dev_connect p1 = (True, p2)"
    and "discoverLoop 0 False p2 s = (cc, p3, s3)"
  shows "connectTo_peripheral p s = (cc, if cc then p3 else dev_disconnect p3, s3)"
  unfolding connectTo_peripheral_def
  by (subst connectLoop.simps) (simp add: assms connectLoop_last)

lemma connectTo_peripheral_neither:
  assumes "dev_connect p = (False, p1)" and "dev_connect p1 = (False, p2)"
  shows "connectTo_peripheral p s = (False, p2, s)"
  unfolding connectTo_peripheral_def
  by (subst connectLoop.simps) (simp add: assms connectLoop_last)

lemma flaky_run:
  "connectTo_peripheral flaky_peripheral fresh_device =
     (False,
      flaky_peripheral\<lparr> dev_connectResults := [True], dev_discoverResults := [Some mobius_gatt],
        dev_connected := False, dev_connectCalls := 1, dev_discoverCalls := 3,
        dev_disconnectCalls := 1 \<rparr>,
      fresh_device)"
  by (simp add: connectTo_peripheral_def connectLoop.simps discoverLoop.simps dev_connect_def
      dev_disconnect_def discoverService_def flaky_peripheral_def no_device_def)


lemma flaky_discovery:
  "\<not> fst (discoverLoop 0 False (snd (dev_connect flaky_peripheral)) fresh_device)"
  by (simp add: discoverLoop.simps dev_connect_def discoverService_def flaky_peripheral_def
      no_device_def)

text \<open>
  Claim C3 does not hold of the code. It asks that the loop of \<open>connectTo(BLEDevice&)\<close>
  ends only when both the connect and the characteristic resolution have succeeded, or
  after two full attempts, so that a connect that succeeds and a resolution that fails
  are followed by a second attempt. The guard of the loop is
  \<open>!hasConnected && !charsConnected && i < 2\<close>, and \<open>hasConnected\<close> stays true after
  the failed resolution. On \<open>flaky_peripheral\<close> the first connect succeeds and the three
  service discoveries that follow fail: the peripheral is disconnected and
  \<open>connectTo\<close> returns false after that single attempt. One connect was made, three
  discoveries and one disconnect; the second connect and the fourth discovery, which
  would both succeed, are never asked for.
\<close>

theorem connectTo_peripheral_single_attempt:
  "fst (dev_connect flaky_peripheral)
   \<and> \<not> fst (discoverLoop 0 False (snd (dev_connect flaky_peripheral)) fresh_device)
   \<and> \<not> fst (connectTo_peripheral flaky_peripheral fresh_device)
   \<and> dev_connectCalls flaky_peripheral = 0
   \<and> dev_connectCalls (fst (snd (connectTo_peripheral flaky_peripheral fresh_device))) = 1
   \<and> dev_discoverCalls (fst (snd (connectTo_peripheral flaky_peripheral fresh_device))) = 3
   \<and> dev_disconnectCalls (fst (snd (connectTo_peripheral flaky_peripheral fresh_device))) = 1
   \<and> dev_connectResults (fst (snd (connectTo_peripheral flaky_peripheral fresh_device))) = [True]
   \<and> dev_discoverResults (fst (snd (connectTo_peripheral flaky_peripheral fresh_device)))
       = [Some mobius_gatt]"
proof -
  have f: "fst (dev_connect flaky_peripheral)" "dev_connectCalls flaky_peripheral = 0"
    by (simp_all add: dev_connect_def flaky_peripheral_def no_device_def)
  show ?thesis
    using f flaky_discovery unfolding flaky_run by simp
qed

section \<open>The message id\<close>

lemma connectTo_peripheral_messageId:
  "messageId (snd (snd (connectTo_peripheral p s))) = messageId s"
proof -
  obtain c1 p1 where f: "dev_connect p = (c1, p1)" by (cases "dev_connect p")
  obtain c2 p2 where g: "dev_connect p1 = (c2, p2)" by (cases "dev_connect p1")
  obtain cc1 q1 s1 where d1: "discoverLoop 0 False p1 s = (cc1, q1, s1)"
    by (cases "discoverLoop 0 False p1 s")
  obtain cc2 q2 s2 where d2: "discoverLoop 0 False p2 s = (cc2, q2, s2)"
    by (cases "discoverLoop 0 False p2 s")
  have k1: "messageId s1 = messageId s" using discoverLoop_keeps [of 0 False p1 s] d1 by simp
  have k2: "messageId s2 = messageId s" using discoverLoop_keeps [of 0 False p2 s] d2 by simp
  show ?thesis
  proof (cases c1)
    case True
    then show ?thesis
      using connectTo_peripheral_first [of p p1 s cc1 q1 s1] f d1 k1 by simp
  next
    case False
    then show ?thesis
      using connectTo_peripheral_second [of p p1 p2 s cc2 q2 s2]
        connectTo_peripheral_neither [of p p1 p2 s] f g d2 k2
      by (cases c2) simp_all
  qed
qed

lemma connectTo_address_messageId:
  "messageId (snd (snd (connectTo_address addr b s))) = messageId s"
proof -
  obtain d b2 where a: "availableLoop 0 no_device (scanLoop 0 b addr) = (d, b2)"
    by (cases "availableLoop 0 no_device (scanLoop 0 b addr)")
  obtain ok p s2 where c: "connectTo_peripheral d (s\<lparr> device := d \<rparr>) = (ok, p, s2)"
    by (cases "connectTo_peripheral d (s\<lparr> device := d \<rparr>)")
  have "messageId s2 = messageId s"
    using connectTo_peripheral_messageId [of d "s\<lparr> device := d \<rparr>"] c by simp
  then show ?thesis
    by (simp add: connectTo_address_def Let_def a c)
qed

lemma connect_messageId: "messageId (snd (snd (connect b s))) = 2"
  by (simp add: connect_def connectTo_address_messageId)

lemma frameMessageId_layout:
  "frameMessageId (frame_layout crc16 data len opCode reserved mid) = mid"
  by (simp add: frameMessageId_def frame_layout_def request_header_def Let_def hi_lo)

lemma getData_messageId:
  assumes len: "length data = unat len" and fits: "unat len + 11 < 65536"
    and g: "getData crc16 data len s = Some (r, s')"
  shows "messageId s' = messageId s + 1"
proof -
  let ?f = "frame_layout crc16 data len OP_CODE_GET 0 (messageId s)"
  let ?s1 = "s\<lparr> messageId := messageId s + 1 \<rparr>"
  obtain res where send: "sendRequest ?f (len + 11) ?s1 = Some (res, s')"
    using g unfolding getData_def buildRequest_frame [OF len fits]
    by (auto simp: Option.bind_eq_Some_conv)
  show ?thesis
    using sendRequest_messageId [OF send] by simp
qed

lemma setData_messageId:
  assumes len: "length data = unat len" and fits: "unat len + 11 < 65536"
  shows "\<exists>ok s'. setData crc16 data len doVerification s = Some (ok, s')
                \<and> messageId s' = messageId s + 1"
proof -
  let ?f = "frame_layout crc16 data len OP_CODE_SET 0x0800 (messageId s)"
  let ?s1 = "s\<lparr> messageId := messageId s + 1 \<rparr>"
  have fl: "length ?f = unat (len + 11)" by (rule frame_size [OF len fits])
  obtain res resSize s2 where send: "sendRequest ?f (len + 11) ?s1 = Some ((res, resSize), s2)"
    unfolding sendRequest_eq [OF fl] by simp
  have rl: "length res = unat resSize" by (rule sendRequest_sizes [OF fl send])
  have m: "messageId s2 = messageId s + 1"
    using sendRequest_messageId [OF send] by simp
  obtain v where v: "responseSuccessful ?f (len + 11) res resSize = Some v"
    using responseSuccessful_eq [OF fl rl] by simp
  show ?thesis
    unfolding setData_def buildRequest_frame [OF len fits]
    using send v m by simp
qed

lemma connect_run:
  "connect radio (fresh_device\<lparr> messageId := 77 \<rparr>)
   = (True, radio\<lparr> ble_scanResults := [], ble_availableResults := [], ble_scanCalls := 1,
                   ble_availableCalls := 2 \<rparr>, connected_session)"
  by (simp add: connect_def connectTo_address_def connectTo_peripheral_def Let_def
      scanLoop.simps availableLoop.simps connectLoop.simps discoverLoop.simps
      scanForAddress_def available_def stopScan_def dev_connect_def discoverService_def
      connectToCharacteristics_def trySubscribe_def subscribe_def characteristic_def
      radio_def fresh_device_def connected_session_def mobius_peripheral_def no_device_def
      mobius_gatt_def REQUEST_CHARACTERISTIC_def RESPONSE_CHARACTERISTIC_1_def
      RESPONSE_CHARACTERISTIC_2_def GENERAL_SERVICE_def writable_def notifying_def unresolved_def)

lemma connected_getData:
  "map_option fst (getData count_crc ATTRIBUTE_CURRENT_SCENE 4 connected_session)
   = Some ([0x00, 0x91, 0x01, 0x00, 0x01, 0x04, 0x02, 0x00], 8)"
proof -
  have m: "messageId connected_session = 2" by (simp add: connected_session_def)
  have "map_option fst
          (sendRequest (frame_layout count_crc ATTRIBUTE_CURRENT_SCENE 4 OP_CODE_GET 0 2) 15
             (connected_session\<lparr> messageId := 2 + 1 \<rparr>)) = Some (scene_response8, 19)"
    unfolding sendRequest_eq [OF current_scene_frame_length]
    by (simp add: connected_session_def writable_def notifying_def unresolved_def writeValue_def
        valueUpdated_def readValue_def awaitResponse.simps scene_response8_def)
  then show ?thesis
    unfolding getData_def current_scene_request m
    by (auto simp: parse_scene8)
qed

text \<open>
  Claim C6. \<open>connect()\<close> leaves the message id at 2, whether or not it succeeds, so
  the first frame built after a connect carries message id 2. Every frame
  \<open>buildRequest\<close> builds carries the message id the handle holds at that moment, and
  the handle's message id is one more afterwards, in 16-bit arithmetic; \<open>sendRequest\<close>
  does not change it. So successive frames carry ids that go up by exactly 1, and each
  \<open>getData\<close> or \<open>setData\<close>, which builds one frame, advances the message id by 1.
  (Stated for selectors of \<open>L\<close> bytes with \<open>L + 11\<close> below \<open>65536\<close>, for which
  \<open>buildRequest\<close> builds a frame.)
\<close>

theorem messageId_sequence:
  assumes len: "length data = unat len" and fits: "unat len + 11 < 65536"
  shows "messageId (snd (snd (connect b s0))) = 2
       \<and> (\<exists>frame s1. buildRequest crc16 data len opCode reserved (snd (snd (connect b s0)))
                         = Some ((frame, len + 11), s1)
                     \<and> frameMessageId frame = 2 \<and> messageId s1 = 3)
       \<and> (\<exists>frame s'. buildRequest crc16 data len opCode reserved s = Some ((frame, len + 11), s')
                     \<and> frameMessageId frame = messageId s
                     \<and> messageId s' = messageId s + 1 \<and> messageId s' \<noteq> messageId s)
       \<and> (\<forall>request n r s'. sendRequest request n s = Some (r, s') \<longrightarrow> messageId s' = messageId s)
       \<and> (\<forall>r s'. getData crc16 data len s = Some (r, s') \<longrightarrow> messageId s' = messageId s + 1)
       \<and> (\<exists>ok s'. setData crc16 data len doVerification s = Some (ok, s')
                  \<and> messageId s' = messageId s + 1)"
proof -
  let ?c = "snd (snd (connect b s0))"
  have c: "messageId ?c = 2" by (rule connect_messageId)
  have first: "\<exists>frame s1. buildRequest crc16 data len opCode reserved ?c = Some ((frame, len + 11), s1)
                     \<and> frameMessageId frame = 2 \<and> messageId s1 = 3"
    unfolding buildRequest_frame [OF len fits] c by (simp add: frameMessageId_layout)
  have step: "\<exists>frame s'. buildRequest crc16 data len opCode reserved s = Some ((frame, len + 11), s')
                     \<and> frameMessageId frame = messageId s
                     \<and> messageId s' = messageId s + 1 \<and> messageId s' \<noteq> messageId s"
    unfolding buildRequest_frame [OF len fits] by (simp add: frameMessageId_layout)
  have send: "\<forall>request n r s'. sendRequest request n s = Some (r, s') \<longrightarrow> messageId s' = messageId s"
    using sendRequest_messageId by blast
  have get: "\<forall>r s'. getData crc16 data len s = Some (r, s') \<longrightarrow> messageId s' = messageId s + 1"
    using getData_messageId [OF len fits] by blast
  show ?thesis
    using c first step send get setData_messageId [OF len fits] by blast
qed


text \<open>The theorem of C6 on a session: the handle starts with message id 77, \<open>connect()\<close>
  succeeds and leaves 2, the frame built next carries 2 and leaves 3, as do a
  \<open>getData\<close> and a \<open>setData\<close> from the connected handle, while a bare
  \<open>sendRequest\<close> leaves 2.\<close>

theorem messageId_sequence_witness:
  "length ATTRIBUTE_CURRENT_SCENE = unat (4 :: u16) \<and> unat (4 :: u16) + 11 < 65536
   \<and> fst (connect radio (fresh_device\<lparr> messageId := 77 \<rparr>))
   \<and> snd (snd (connect radio (fresh_device\<lparr> messageId := 77 \<rparr>))) = connected_session
   \<and> messageId (snd (snd (connect radio (fresh_device\<lparr> messageId := 77 \<rparr>)))) = 2
   \<and> map_option (\<lambda>r. (frameMessageId (fst (fst r)), messageId (snd r)))
        (buildRequest count_crc ATTRIBUTE_CURRENT_SCENE 4 OP_CODE_GET 0
           (snd (snd (connect radio (fresh_device\<lparr> messageId := 77 \<rparr>))))) = Some (2, 3)
   \<and> map_option (\<lambda>r. messageId (snd r))
        (getData count_crc ATTRIBUTE_CURRENT_SCENE 4 connected_session) = Some 3
   \<and> map_option (\<lambda>r. messageId (snd r))
        (setData count_crc ATTRIBUTE_CURRENT_SCENE 4 True connected_session) = Some 3
   \<and> map_option (\<lambda>r. messageId (snd r)) (sendRequest set_request 17 connected_session) = Some 2"
proof -
  have l: "length ATTRIBUTE_CURRENT_SCENE = unat (4 :: u16)" "unat (4 :: u16) + 11 < 65536"
    by (simp_all add: ATTRIBUTE_CURRENT_SCENE_def)
  have m: "messageId connected_session = 2" by (simp add: connected_session_def)
  note t = messageId_sequence [OF l, of radio "fresh_device\<lparr> messageId := 77 \<rparr>"
             count_crc OP_CODE_GET 0 connected_session True]
  have ok: "fst (connect radio (fresh_device\<lparr> messageId := 77 \<rparr>))"
    "snd (snd (connect radio (fresh_device\<lparr> messageId := 77 \<rparr>))) = connected_session"
    by (simp_all add: connect_run)
  have two: "messageId (snd (snd (connect radio (fresh_device\<lparr> messageId := 77 \<rparr>)))) = 2"
    using t by blast
  have first: "map_option (\<lambda>r. (frameMessageId (fst (fst r)), messageId (snd r)))
        (buildRequest count_crc ATTRIBUTE_CURRENT_SCENE 4 OP_CODE_GET 0
           (snd (snd (connect radio (fresh_device\<lparr> messageId := 77 \<rparr>))))) = Some (2, 3)"
    using t by auto
  obtain r s' where g: "getData count_crc ATTRIBUTE_CURRENT_SCENE 4 connected_session = Some (r, s')"
    using connected_getData by auto
  have get: "map_option (\<lambda>r. messageId (snd r))
        (getData count_crc ATTRIBUTE_CURRENT_SCENE 4 connected_session) = Some 3"
    using t g m by auto
  have set: "map_option (\<lambda>r. messageId (snd r))
        (setData count_crc ATTRIBUTE_CURRENT_SCENE 4 True connected_session) = Some 3"
    using t m by auto
  have "length set_request = unat (17 :: u16)" by (simp add: set_request_def)
  then obtain x s'' where x: "sendRequest set_request 17 connected_session = Some (x, s'')"
    by (simp add: sendRequest_eq)
  have "\<forall>request n r s'. sendRequest request n connected_session = Some (r, s')
          \<longrightarrow> messageId s' = messageId connected_session"
    using t by blast
  then have "messageId s'' = 2"
    using x m by (simp only:)
  then have send:
    "map_option (\<lambda>r. messageId (snd r)) (sendRequest set_request 17 connected_session) = Some 2"
    by (simp add: x)
  show ?thesis
    using l ok two first get set send by simp
qed

end
